theory Spec2Isabelle
  imports Complex_Main "HOL-Library.Sublist"
begin

section \<open>The multi-part uploader of \<open>CollectionShare.tsx\<close> (class \<open>MultiPartUploader\<close>)\<close>

text \<open>
  The upload code of the file is the Dart class \<open>MultiPartUploader\<close> (source lines
  641 to 884). It talks to three collaborators whose code is not part of the file: the
  feature-flag service and the constants of \<open>constants.dart\<close> (taken as the record
  \<open>config\<close>), the object store reached through \<open>_s3Dio\<close> (taken as the record
  \<open>world\<close> of response oracles), and the tracking database \<open>UploadLocksDB\<close>
  (its calls are recorded as events; what they do to a stored row follows the contract the
  specification gives for the store).

  Dart's \<open>int\<close> is modelled as \<open>int\<close> for byte counts and as \<open>nat\<close> for the part
  index \<open>i\<close>, which starts at 0 and is only ever incremented. Sizes stay far below
  \<open>2^63\<close>, so no wrap-around is written out.
\<close>

subsection \<open>Data model\<close>

datatype MultipartStatus = pending | uploaded | completed

record MultipartUploadURLs =
  objectKey :: string
  completeURL :: string
  partsURLs :: "string list"

text \<open>
  A Dart \<open>Map<int, String>\<close> literal is a \<open>LinkedHashMap\<close>: it iterates in insertion
  order. It is an association list with distinct keys; \<open>etags[i] = v\<close> keeps the
  position of a key that is already present and appends a new key at the end.
\<close>

type_synonym etag_map = "(nat \<times> string) list"

fun map_put :: "etag_map \<Rightarrow> nat \<Rightarrow> string \<Rightarrow> etag_map" where
  "map_put [] k v = [(k, v)]"
| "map_put ((k', v') # m) k v =
     (if k' = k then (k, v) # m else (k', v') # map_put m k v)"

text \<open>
  \<open>MultipartInfo\<close> and \<open>MultipartStatus\<close> are declared in \<open>multipart.dart\<close>, which
  is not part of the file; the fields and the three status values are the ones the
  uploader reads and writes. The optional fields are \<open>null\<close> in
  \<open>MultipartInfo(urls: urls)\<close>.
\<close>

record MultipartInfo =
  urls :: MultipartUploadURLs
  status :: MultipartStatus
  partUploadStatus :: "bool list option"
  partETags :: "etag_map option"
  partSize :: "int option"

record config =
  internalUser :: bool
  multipartPartSize :: int
  multipartPartSizeInternal :: int

datatype exn =
    ETAG_MISSING
  | UnsupportedError
  | IntegerDivisionByZero
  | NoCachedLinks
  | Thrown string

subsection \<open>Part planning\<close>

definition multipartPartSizeForUpload :: "config \<Rightarrow> int" where
  "multipartPartSizeForUpload cfg =
     (if internalUser cfg then multipartPartSizeInternal cfg else multipartPartSize cfg)"

text \<open>
  \<open>(fileSize / multipartPartSizeForUpload).ceil()\<close>: Dart's \<open>/\<close> converts both ints
  to IEEE-754 doubles and divides them; each of the three steps rounds to the nearest
  double, ties to the even mantissa. A double other than zero is an integer mantissa of at
  most 53 bits times a power of two: \<open>to_double x\<close> scales \<open>x\<close> by the power of two
  that brings it between \<open>2^52\<close> and \<open>2^53\<close>, rounds to an integer and scales back.
  (The magnitudes that come from 64-bit ints and their quotients lie between \<open>2^-63\<close>
  and \<open>2^63\<close>, far from the subnormal and the overflow range, which are not
  modelled.) A zero divisor gives an infinite or NaN quotient, on which \<open>ceil()\<close>
  throws \<open>UnsupportedError\<close>; on a finite double \<open>ceil()\<close> is the least integer not
  below it, clamped to the 64-bit range.
\<close>

definition round_even :: "real \<Rightarrow> int" where
  "round_even y =
     (if y - of_int \<lfloor>y\<rfloor> < 1 / 2 then \<lfloor>y\<rfloor>
      else if 1 / 2 < y - of_int \<lfloor>y\<rfloor> then \<lfloor>y\<rfloor> + 1
      else if even \<lfloor>y\<rfloor> then \<lfloor>y\<rfloor> else \<lfloor>y\<rfloor> + 1)"

definition pow2 :: "int \<Rightarrow> real" where
  "pow2 e = (if 0 \<le> e then 2 ^ nat e else 1 / 2 ^ nat (- e))"

definition to_double :: "real \<Rightarrow> real" where
  "to_double x =
     (if x = 0 then 0
      else of_int (round_even (x / pow2 (\<lfloor>log 2 \<bar>x\<bar>\<rfloor> - 52)))
             * pow2 (\<lfloor>log 2 \<bar>x\<bar>\<rfloor> - 52))"

definition double_ceil :: "real \<Rightarrow> int" where
  "double_ceil x = max (- (2 ^ 63)) (min (2 ^ 63 - 1) \<lceil>x\<rceil>)"

definition calculatePartCount :: "config \<Rightarrow> int \<Rightarrow> exn + int" where
  "calculatePartCount cfg fileSize =
     (if \<not> internalUser cfg then Inr 1
      else if multipartPartSizeForUpload cfg = 0 then Inl UnsupportedError
      else Inr (double_ceil
                  (to_double (to_double (of_int fileSize)
                                / to_double (of_int (multipartPartSizeForUpload cfg))))))"

subsection \<open>The completion document\<close>

text \<open>\<open>PartETag(number, identifier)\<close>, one entry of the completion document.\<close>

record PartETag =
  partNumber :: nat
  eTag :: string

text \<open>
  \<open>partEtags.entries.map((e) => PartETag(e.key + 1, e.value)).toList()\<close>: one entry
  per map entry, in the map's iteration order.
\<close>

definition completion_parts :: "etag_map \<Rightarrow> PartETag list" where
  "completion_parts partEtags =
     map (\<lambda>e. \<lparr>partNumber = fst e + 1, eTag = snd e\<rparr>) partEtags"

text \<open>\<open>String.replaceAll(pat, '')\<close> for a non-empty pattern, scanning from the left.\<close>

fun removeAll :: "string \<Rightarrow> string \<Rightarrow> string" where
  "removeAll pat [] = []"
| "removeAll pat (c # cs) =
     (if pat \<noteq> [] \<and> take (length pat) (c # cs) = pat
      then removeAll pat (drop (length pat) (c # cs))
      else c # removeAll pat cs)"

subsection \<open>The object store and the recorded effects\<close>

text \<open>
  \<open>_s3Dio.put(partURL, data: encryptedFile.openRead(start, end), headers:
  {content-length: fileSize})\<close>: the request is the target, the byte range handed to
  \<open>openRead\<close> (\<open>None\<close> for Dart's \<open>null\<close>, meaning up to the end of the file) and
  the declared content length.
\<close>

record put_request =
  partURL :: string
  range_start :: int
  range_end :: "int option"
  contentLength :: int

text \<open>
  A call either throws or returns a response; of a response to \<open>put\<close> only
  \<open>response.headers.value("etag")\<close> is read, which is \<open>null\<close> when the header is
  absent.
\<close>

datatype put_outcome = PutThrows exn | PutResponse "string option"

datatype post_outcome = PostThrows exn | PostOK

text \<open>
  The outside world of one run: the answer of the object store to the upload of part
  \<open>i\<close> and to the finalize call, and the serializer \<open>convertJs2Xml\<close> of
  \<open>xml.dart\<close>, which is not part of the file.
\<close>

record world =
  s3_put :: "nat \<Rightarrow> put_request \<Rightarrow> put_outcome"
  s3_post :: "string \<Rightarrow> string \<Rightarrow> post_outcome"
  convertJs2Xml :: "string \<times> PartETag list \<Rightarrow> string"

text \<open>
  Every call that leaves the process is recorded, in the order the code makes it: the
  three writes to the tracking database and the two network calls with their outcomes.
\<close>

datatype event =
    UpdateLastAttempted string string int
  | Put nat put_request put_outcome
  | UpdatePartStatus string nat string
  | UpdateTrackUploadStatus string MultipartStatus
  | Post string string post_outcome

text \<open>
  \<open>File.openRead(start, end)\<close> streams the bytes from \<open>start\<close> up to \<open>end\<close>, or
  up to the end of the file when \<open>end\<close> is \<open>null\<close> or lies behind it.
\<close>

definition bytes_streamed :: "int \<Rightarrow> put_request \<Rightarrow> int" where
  "bytes_streamed fileLen req =
     max 0 ((case range_end req of None \<Rightarrow> fileLen | Some e \<Rightarrow> min e fileLen)
            - range_start req)"

subsection \<open>\<open>_uploadParts\<close>\<close>

text \<open>
  \<open>while (i < (partUploadStatus?.length ?? 0) && (partUploadStatus?[i] ?? false)) i++\<close>
\<close>

function skip_uploaded :: "bool list option \<Rightarrow> nat \<Rightarrow> nat" where
  "skip_uploaded st i =
     (if i < (case st of None \<Rightarrow> 0 | Some xs \<Rightarrow> length xs)
         \<and> (case st of None \<Rightarrow> False | Some xs \<Rightarrow> xs ! i)
      then skip_uploaded st (i + 1) else i)"
  by pat_completeness auto
termination
  by (relation "measure (\<lambda>(st, i). (case st of None \<Rightarrow> 0 | Some xs \<Rightarrow> length xs) - i)")
     (auto split: option.splits)

text \<open>
  The request of part \<open>i\<close>. Dart's \<open>%\<close> on ints is the Euclidean remainder, never
  negative; it is only evaluated for the last part, and the caller of \<open>part_request\<close>
  raises on a zero divisor before.
\<close>

definition part_request :: "MultipartUploadURLs \<Rightarrow> int \<Rightarrow> int \<Rightarrow> nat \<Rightarrow> put_request" where
  "part_request u fileLen pSize i =
     (let isLastPart = (int i = int (length (partsURLs u)) - 1);
          fileSize = (if isLastPart then fileLen mod \<bar>pSize\<bar> else pSize)
      in \<lparr>partURL = partsURLs u ! i,
          range_start = int i * pSize,
          range_end = (if isLastPart then None else Some ((int i + 1) * pSize)),
          contentLength = fileSize\<rparr>)"

function upload_loop ::
  "world \<Rightarrow> MultipartUploadURLs \<Rightarrow> int \<Rightarrow> int \<Rightarrow> nat \<Rightarrow> etag_map
     \<Rightarrow> event list \<times> (exn + etag_map)" where
  "upload_loop W u fileLen pSize i etags =
     (if i < length (partsURLs u) then
        if int i = int (length (partsURLs u)) - 1 \<and> pSize = 0
        then ([], Inl IntegerDivisionByZero)
        else
          (case s3_put W i (part_request u fileLen pSize i) of
             PutThrows e \<Rightarrow>
               ([Put i (part_request u fileLen pSize i) (PutThrows e)], Inl e)
           | PutResponse h \<Rightarrow>
               (case h of
                  None \<Rightarrow>
                    ([Put i (part_request u fileLen pSize i) (PutResponse h)],
                     Inl ETAG_MISSING)
                | Some t \<Rightarrow>
                    if t = []
                    then ([Put i (part_request u fileLen pSize i) (PutResponse h)],
                          Inl ETAG_MISSING)
                    else
                      (case upload_loop W u fileLen pSize (i + 1) (map_put etags i t) of
                         (evs, r) \<Rightarrow>
                           (Put i (part_request u fileLen pSize i) (PutResponse h)
                              # UpdatePartStatus (objectKey u) i t # evs, r))))
      else ([], Inr etags))"
  by pat_completeness auto
termination
  by (relation "measure (\<lambda>(W, u, fileLen, pSize, i, etags). length (partsURLs u) - i)") auto

definition uploadParts ::
  "config \<Rightarrow> world \<Rightarrow> MultipartInfo \<Rightarrow> int \<Rightarrow> event list \<times> (exn + etag_map)" where
  "uploadParts cfg W partInfo fileLen =
     (let etags = (case partETags partInfo of None \<Rightarrow> [] | Some m \<Rightarrow> m);
          pSize = (case partSize partInfo of
                     None \<Rightarrow> multipartPartSizeForUpload cfg | Some p \<Rightarrow> p);
          i = skip_uploaded (partUploadStatus partInfo) 0
      in case upload_loop W (urls partInfo) fileLen pSize i etags of
           (evs, Inl e) \<Rightarrow> (evs, Inl e)
         | (evs, Inr m) \<Rightarrow>
             (evs @ [UpdateTrackUploadStatus (objectKey (urls partInfo)) uploaded], Inr m))"

subsection \<open>\<open>_completeMultipartUpload\<close>\<close>

definition completion_body :: "world \<Rightarrow> etag_map \<Rightarrow> string" where
  "completion_body W partEtags =
     removeAll ''&quot;''
       (removeAll [CHR 0x22]
          (convertJs2Xml W (''CompleteMultipartUpload'', completion_parts partEtags)))"

definition completeMultipartUpload ::
  "world \<Rightarrow> string \<Rightarrow> etag_map \<Rightarrow> string \<Rightarrow> event list \<times> (exn + unit)" where
  "completeMultipartUpload W objKey partEtags url =
     (case s3_post W url (completion_body W partEtags) of
        PostThrows e \<Rightarrow>
          ([Post url (completion_body W partEtags) (PostThrows e)], Inl e)
      | PostOK \<Rightarrow>
          ([Post url (completion_body W partEtags) PostOK,
            UpdateTrackUploadStatus objKey completed], Inr ()))"

subsection \<open>The tracking store\<close>

text \<open>
  Modelled from the spec: the class \<open>UploadLocksDB\<close> (\<open>upload_locks_db.dart\<close>) is
  not part of the file. Sections 3, 4.3 and 6 of the specification give its contract: one
  persisted row per \<open>(localId, fileHash, collectionId)\<close>, holding the fields of
  \<open>MultipartInfo\<close>; \<open>getSession\<close> returns the row of a key or \<open>NotFound\<close>;
  \<open>recordPartUploaded(objectKey, partIndex, etag)\<close> sets the flag of the part and
  stores its identifier; \<open>setSessionStatus(objectKey, status)\<close> stores the status;
  \<open>touchLastAttempt\<close> is a liveness hint that changes none of these fields.
\<close>

type_synonym session_key = "string \<times> string \<times> int"

type_synonym db = "(session_key \<times> MultipartInfo) list"

text \<open>
  Modelled from the spec: \<open>getCachedLinks\<close> is the \<open>getSession\<close> of the store
  contract; it returns the row stored under the key, or nothing.
\<close>

definition getCachedLinks :: "db \<Rightarrow> session_key \<Rightarrow> MultipartInfo option" where
  "getCachedLinks d k = map_of d k"

text \<open>
  Modelled from the spec: \<open>updatePartStatus\<close> is the \<open>recordPartUploaded\<close> of the
  store contract; on the rows of the object key it sets the flag of the part, where the
  row has such a flag, and stores the identifier under the part index.
\<close>

definition updatePartStatus :: "string \<Rightarrow> nat \<Rightarrow> string \<Rightarrow> MultipartInfo \<Rightarrow> MultipartInfo" where
  "updatePartStatus objKey i t row =
     (if objectKey (urls row) = objKey
      then row\<lparr>partUploadStatus := map_option (\<lambda>xs. xs[i := True]) (partUploadStatus row),
               partETags := Some (map_put (case partETags row of None \<Rightarrow> [] | Some m \<Rightarrow> m) i t)\<rparr>
      else row)"

text \<open>
  Modelled from the spec: \<open>updateTrackUploadStatus\<close> is the \<open>setSessionStatus\<close> of
  the store contract; it stores the status on the rows of the object key.
\<close>

definition updateTrackUploadStatus :: "string \<Rightarrow> MultipartStatus \<Rightarrow> MultipartInfo \<Rightarrow> MultipartInfo" where
  "updateTrackUploadStatus objKey s row =
     (if objectKey (urls row) = objKey then row\<lparr>status := s\<rparr> else row)"

text \<open>
  What one recorded event does to a stored row and to the store: only the two writes
  above change a row (\<open>updateLastAttempted\<close> stamps a time that is not modelled).
\<close>

fun row_apply :: "MultipartInfo \<Rightarrow> event \<Rightarrow> MultipartInfo" where
  "row_apply row (UpdatePartStatus objKey i t) = updatePartStatus objKey i t row"
| "row_apply row (UpdateTrackUploadStatus objKey s) = updateTrackUploadStatus objKey s row"
| "row_apply row (UpdateLastAttempted l h c) = row"
| "row_apply row (Put i req out) = row"
| "row_apply row (Post url body out) = row"

definition db_apply :: "db \<Rightarrow> event \<Rightarrow> db" where
  "db_apply d e = map (\<lambda>(k, row). (k, row_apply row e)) d"

definition db_run :: "db \<Rightarrow> event list \<Rightarrow> db" where
  "db_run d evs = foldl db_apply d evs"

definition row_run :: "MultipartInfo \<Rightarrow> event list \<Rightarrow> MultipartInfo" where
  "row_run row evs = foldl row_apply row evs"

subsection \<open>The two entry points\<close>

text \<open>
  \<open>putExistingMultipartFile\<close> reads the row once, at its start, and reads
  \<open>multipartInfo.status\<close> of that in-memory copy afterwards: the writes of
  \<open>_uploadParts\<close> go to the database, not to the copy.
\<close>

definition putExistingMultipartFile ::
  "config \<Rightarrow> world \<Rightarrow> db \<Rightarrow> session_key \<Rightarrow> int \<Rightarrow> event list \<times> (exn + string)" where
  "putExistingMultipartFile cfg W d k fileLen =
     (case getCachedLinks d k of
        None \<Rightarrow> ([], Inl NoCachedLinks)
      | Some multipartInfo \<Rightarrow>
          (case (if status multipartInfo = pending
                 then uploadParts cfg W multipartInfo fileLen
                 else ([], Inr (case partETags multipartInfo of None \<Rightarrow> [] | Some m \<Rightarrow> m))) of
             (evs1, Inl e) \<Rightarrow>
               (UpdateLastAttempted (fst k) (fst (snd k)) (snd (snd k)) # evs1, Inl e)
           | (evs1, Inr etags) \<Rightarrow>
               (case (if status multipartInfo \<noteq> completed
                      then completeMultipartUpload W (objectKey (urls multipartInfo)) etags
                             (completeURL (urls multipartInfo))
                      else ([], Inr ())) of
                  (evs2, Inl e) \<Rightarrow>
                    (UpdateLastAttempted (fst k) (fst (snd k)) (snd (snd k)) # evs1 @ evs2,
                     Inl e)
                | (evs2, Inr _) \<Rightarrow>
                    (UpdateLastAttempted (fst k) (fst (snd k)) (snd (snd k)) # evs1 @ evs2,
                     Inr (objectKey (urls multipartInfo))))))"

text \<open>
  \<open>putMultipartFile\<close> starts from \<open>MultipartInfo(urls: urls)\<close>: no part flags, no
  identifiers, no part size. (\<open>_uploadParts\<close> does not read the status of its
  argument.)
\<close>

definition putMultipartFile ::
  "config \<Rightarrow> world \<Rightarrow> MultipartUploadURLs \<Rightarrow> int \<Rightarrow> event list \<times> (exn + string)" where
  "putMultipartFile cfg W u fileLen =
     (case uploadParts cfg W
             \<lparr>urls = u, status = pending, partUploadStatus = None, partETags = None,
              partSize = None\<rparr> fileLen of
        (evs1, Inl e) \<Rightarrow> (evs1, Inl e)
      | (evs1, Inr etags) \<Rightarrow>
          (case completeMultipartUpload W (objectKey u) etags (completeURL u) of
             (evs2, Inl e) \<Rightarrow> (evs1 @ evs2, Inl e)
           | (evs2, Inr _) \<Rightarrow> (evs1 @ evs2, Inr (objectKey u))))"

subsection \<open>Reading a trace\<close>

text \<open>The parts for which an upload request was sent, in the order of the requests.\<close>

fun put_index :: "event \<Rightarrow> nat option" where
  "put_index (Put i req out) = Some i"
| "put_index e = None"

definition uploaded_parts :: "event list \<Rightarrow> nat list" where
  "uploaded_parts evs = List.map_filter put_index evs"

fun put_req :: "event \<Rightarrow> put_request option" where
  "put_req (Put i req out) = Some req"
| "put_req e = None"

definition put_requests :: "event list \<Rightarrow> put_request list" where
  "put_requests evs = List.map_filter put_req evs"

text \<open>
  The same with what was sent: the target of each request and the byte range it streams.
\<close>

fun sent_part :: "event \<Rightarrow> (nat \<times> string \<times> int \<times> int option) option" where
  "sent_part (Put i req out) = Some (i, partURL req, range_start req, range_end req)"
| "sent_part e = None"

definition sent_parts :: "event list \<Rightarrow> (nat \<times> string \<times> int \<times> int option) list" where
  "sent_parts evs = List.map_filter sent_part evs"


text \<open>The identifier the store returns for part \<open>j\<close>, empty if it returns none.\<close>

definition returned_etag :: "world \<Rightarrow> MultipartUploadURLs \<Rightarrow> int \<Rightarrow> int \<Rightarrow> nat \<Rightarrow> string" where
  "returned_etag W u fileLen pSize j =
     (case s3_put W j (part_request u fileLen pSize j) of
        PutResponse (Some t) \<Rightarrow> t
      | _ \<Rightarrow> [])"

text \<open>The parts recorded as uploaded in the store, in the order of the writes.\<close>

fun recorded_index :: "event \<Rightarrow> nat option" where
  "recorded_index (UpdatePartStatus objKey i t) = Some i"
| "recorded_index e = None"

definition recorded_parts :: "event list \<Rightarrow> nat list" where
  "recorded_parts evs = List.map_filter recorded_index evs"

fun is_post :: "event \<Rightarrow> bool" where
  "is_post (Post url body out) = True"
| "is_post e = False"

definition completion_calls :: "event list \<Rightarrow> event list" where
  "completion_calls evs = filter is_post evs"

text \<open>
  The order of persistence: a write that records a part comes directly after the upload
  of that part, whose response carried the recorded, non-empty identifier; a write that
  marks the session completed comes directly after a finalize call that succeeded.
\<close>

fun confirmed_before :: "event option \<Rightarrow> event \<Rightarrow> bool" where
  "confirmed_before prev (UpdatePartStatus objKey i t) =
     (case prev of
        Some (Put j req (PutResponse (Some t'))) \<Rightarrow> j = i \<and> t' = t \<and> t \<noteq> []
      | _ \<Rightarrow> False)"
| "confirmed_before prev (UpdateTrackUploadStatus objKey s) =
     (s \<noteq> completed \<or> (case prev of Some (Post url body PostOK) \<Rightarrow> True | _ \<Rightarrow> False))"
| "confirmed_before prev e = True"

fun persist_ordered :: "event option \<Rightarrow> event list \<Rightarrow> bool" where
  "persist_ordered prev [] = True"
| "persist_ordered prev (e # evs) = (confirmed_before prev e \<and> persist_ordered (Some e) evs)"

fun failed_post :: "event \<Rightarrow> bool" where
  "failed_post (Post url body (PostThrows e)) = True"
| "failed_post e = False"

fun marks_completed :: "event \<Rightarrow> bool" where
  "marks_completed (UpdateTrackUploadStatus objKey s) = (s = completed)"
| "marks_completed e = False"


definition first_unset :: "bool list \<Rightarrow> nat" where
  "first_unset st = length (takeWhile (\<lambda>b. b) st)"

text \<open>The part size \<open>_uploadParts\<close> works with: \<open>partInfo.partSize ?? multipartPartSizeForUpload\<close>.\<close>

definition part_size_of :: "config \<Rightarrow> MultipartInfo \<Rightarrow> int" where
  "part_size_of cfg row =
     (case partSize row of None \<Rightarrow> multipartPartSizeForUpload cfg | Some p \<Rightarrow> p)"

text \<open>The identifiers \<open>_uploadParts\<close> starts from: \<open>partInfo.partETags ?? {}\<close>.\<close>

definition etags_of :: "MultipartInfo \<Rightarrow> etag_map" where
  "etags_of row = (case partETags row of None \<Rightarrow> [] | Some m \<Rightarrow> m)"

text \<open>The store answers every upload with a non-empty identifier.\<close>

definition answers_all :: "world \<Rightarrow> bool" where
  "answers_all W = (\<forall>i req. \<exists>t. s3_put W i req = PutResponse (Some t) \<and> t \<noteq> [])"

text \<open>The states a row goes through while a trace is applied to it, the first included.\<close>

fun row_states :: "MultipartInfo \<Rightarrow> event list \<Rightarrow> MultipartInfo list" where
  "row_states row [] = [row]"
| "row_states row (e # evs) = row # row_states (row_apply row e) evs"

fun status_rank :: "MultipartStatus \<Rightarrow> nat" where
  "status_rank pending = 0"
| "status_rank uploaded = 1"
| "status_rank completed = 2"

text \<open>No write of a trace takes the status of the row back.\<close>

fun never_regresses :: "MultipartInfo \<Rightarrow> event list \<Rightarrow> bool" where
  "never_regresses row [] = True"
| "never_regresses row (e # evs) =
     (status_rank (status row) \<le> status_rank (status (row_apply row e))
      \<and> never_regresses (row_apply row e) evs)"

text \<open>
  The operations on one session: the fresh upload, with the targets the session was
  created with, and the resume. A sequence of them runs each in a world and with a file
  of its own, every run starting from the store the run before left.
\<close>

datatype session_op = Fresh world int | Resume world int

fun run_op :: "config \<Rightarrow> db \<Rightarrow> session_key \<Rightarrow> session_op \<Rightarrow> event list" where
  "run_op cfg d k (Resume W fileLen) = fst (putExistingMultipartFile cfg W d k fileLen)"
| "run_op cfg d k (Fresh W fileLen) =
     (case getCachedLinks d k of
        None \<Rightarrow> []
      | Some row \<Rightarrow> fst (putMultipartFile cfg W (urls row) fileLen))"

fun run_ops :: "config \<Rightarrow> session_op list \<Rightarrow> db \<Rightarrow> session_key \<Rightarrow> event list" where
  "run_ops cfg [] d k = []"
| "run_ops cfg (x # xs) d k =
     run_op cfg d k x @ run_ops cfg xs (db_run d (run_op cfg d k x)) k"

fun is_fresh :: "session_op \<Rightarrow> bool" where
  "is_fresh (Fresh W fileLen) = True"
| "is_fresh (Resume W fileLen) = False"

text \<open>Every fresh upload of the sequence starts while the stored status is \<open>pending\<close>.\<close>

fun fresh_while_pending :: "config \<Rightarrow> session_op list \<Rightarrow> db \<Rightarrow> session_key \<Rightarrow> bool" where
  "fresh_while_pending cfg [] d k = True"
| "fresh_while_pending cfg (x # xs) d k =
     ((\<not> is_fresh x \<or> map_option status (getCachedLinks d k) = Some pending)
      \<and> fresh_while_pending cfg xs (db_run d (run_op cfg d k x)) k)"

subsection \<open>Concrete scenarios\<close>

definition cfg0 :: config where
  "cfg0 = \<lparr>internalUser = True, multipartPartSize = 5000000,
           multipartPartSizeInternal = 10000000\<rparr>"

definition W0 :: world where
  "W0 = \<lparr>s3_put = (\<lambda>i req. PutResponse (Some ''e'')), s3_post = (\<lambda>url body. PostOK),
         convertJs2Xml = (\<lambda>doc. ''<x/>'')\<rparr>"

definition u2 :: MultipartUploadURLs where
  "u2 = \<lparr>objectKey = ''k'', completeURL = ''c'', partsURLs = [''p0'', ''p1'']\<rparr>"

definition u3 :: MultipartUploadURLs where
  "u3 = \<lparr>objectKey = ''k'', completeURL = ''c'', partsURLs = [''p0'', ''p1'', ''p2'']\<rparr>"

definition key0 :: session_key where
  "key0 = (''local'', ''hash'', 7)"

text \<open>A session of three parts of which the first two are recorded.\<close>

definition row_two_done :: MultipartInfo where
  "row_two_done =
     \<lparr>urls = u3, status = pending, partUploadStatus = Some [True, True, False],
      partETags = Some [(0, ''a''), (1, ''b'')], partSize = Some 10000000\<rparr>"

text \<open>A session of three parts with a gap: the second part is not recorded, the third is.\<close>

definition row_gap :: MultipartInfo where
  "row_gap =
     \<lparr>urls = u3, status = pending, partUploadStatus = Some [True, False, True],
      partETags = Some [(0, ''a''), (2, ''c'')], partSize = Some 10000000\<rparr>"

text \<open>A session of three parts, all recorded, that is not finalized yet.\<close>

definition row_all_done :: MultipartInfo where
  "row_all_done =
     \<lparr>urls = u3, status = uploaded, partUploadStatus = Some [True, True, True],
      partETags = Some [(0, ''a''), (1, ''b''), (2, ''c'')], partSize = Some 10000000\<rparr>"

text \<open>A session of three parts of which none is recorded.\<close>

definition row_none_done :: MultipartInfo where
  "row_none_done =
     \<lparr>urls = u3, status = pending, partUploadStatus = Some [False, False, False],
      partETags = Some [], partSize = Some 10000000\<rparr>"

text \<open>A world whose finalize call fails, and one that answers part 1 with an empty identifier.\<close>

definition W_post_fails :: world where
  "W_post_fails = W0\<lparr>s3_post := (\<lambda>url body. PostThrows (Thrown ''503''))\<rparr>"



text \<open>The session of three parts, all recorded, after it has been finalized.\<close>

definition row_completed :: MultipartInfo where
  "row_completed = row_all_done\<lparr>status := completed\<rparr>"

text \<open>
  A serializer for the scenarios, in the shape of the protocol: the root element holds one
  \<open>Part\<close> element per entry, with the part number in decimal and the identifier.
\<close>

function decimal :: "nat \<Rightarrow> string" where
  "decimal n = (if n < 10 then [''0123456789'' ! n]
                else decimal (n div 10) @ [''0123456789'' ! (n mod 10)])"
  by pat_completeness auto
termination
  by (relation "measure (\<lambda>n. n)") auto

definition xml_part :: "PartETag \<Rightarrow> string" where
  "xml_part p =
     ''<Part><PartNumber>'' @ decimal (partNumber p) @ ''</PartNumber><ETag>'' @ eTag p
       @ ''</ETag></Part>''"

definition xml_doc :: "string \<times> PartETag list \<Rightarrow> string" where
  "xml_doc doc = ''<'' @ fst doc @ ''>'' @ concat (map xml_part (snd doc)) @ ''</'' @ fst doc @ ''>''"

definition W_xml :: world where
  "W_xml = W0\<lparr>convertJs2Xml := xml_doc\<rparr>"

section \<open>Properties\<close>

declare upload_loop.simps [simp del]
declare skip_uploaded.simps [simp del]
declare decimal.simps [simp del]

subsection \<open>Part planning\<close>

lemma round_even_ge: "of_int n \<le> y \<Longrightarrow> n \<le> round_even y"
proof -
  assume "of_int n \<le> y"
  then have "n \<le> \<lfloor>y\<rfloor>" by (simp add: le_floor_iff)
  then show ?thesis unfolding round_even_def by auto
qed

lemma round_even_le: "y \<le> of_int n \<Longrightarrow> round_even y \<le> n"
proof -
  assume a: "y \<le> of_int n"
  have f: "\<lfloor>y\<rfloor> \<le> n" using floor_mono [OF a] by simp
  show ?thesis
  proof (cases "\<lfloor>y\<rfloor> = n")
    case True
    then have "y = of_int n" using a of_int_floor_le [of y] by linarith
    then show ?thesis by (simp add: round_even_def)
  next
    case False
    then have "\<lfloor>y\<rfloor> + 1 \<le> n" using f by linarith
    then show ?thesis using f unfolding round_even_def by auto
  qed
qed

lemma round_even_gt: "of_int n + 1 / 2 < y \<Longrightarrow> n < round_even y"
proof -
  assume a: "of_int n + 1 / 2 < y"
  then have f: "n \<le> \<lfloor>y\<rfloor>" by (simp add: le_floor_iff)
  show ?thesis
  proof (cases "\<lfloor>y\<rfloor> = n")
    case True
    then have "1 / 2 < y - of_int \<lfloor>y\<rfloor>" using a by simp
    then show ?thesis using True unfolding round_even_def by auto
  next
    case False
    then have "n < \<lfloor>y\<rfloor>" using f by linarith
    then show ?thesis unfolding round_even_def by auto
  qed
qed

lemma round_even_int: "round_even (of_int n) = n"
  unfolding round_even_def by simp

lemma log2_bounds:
  assumes "0 < x"
  shows "2 powr of_int \<lfloor>log 2 x\<rfloor> \<le> x" and "x < 2 powr (of_int \<lfloor>log 2 x\<rfloor> + 1)"
  using floor_log_eq_powr_iff [of x 2 "\<lfloor>log 2 x\<rfloor>"] assms by simp_all


lemma real_less_2p53:
  fixes n :: int
  assumes "n < 2 ^ 53"
  shows "real_of_int n < 2 powr 53"
proof -
  have "real_of_int n < real_of_int (2 ^ 53)"
    using assms by (rule iffD2 [OF of_int_less_iff])
  also have "real_of_int (2 ^ 53) = 2 powr 53"
    by simp
  finally show ?thesis .
qed

lemma exponent_le:
  assumes "0 < x" and "x < 2 powr 53"
  shows "\<lfloor>log 2 x\<rfloor> \<le> 52"
proof -
  have "(2::real) powr of_int \<lfloor>log 2 x\<rfloor> < 2 powr 53"
    using log2_bounds(1) [OF assms(1)] assms(2) by linarith
  then have "real_of_int \<lfloor>log 2 x\<rfloor> < 53"
    by (simp only: powr_less_cancel_iff one_less_numeral_iff semiring_norm)
  then show ?thesis by linarith
qed

lemma pow2_powr: "pow2 e = 2 powr of_int e"
  using powr_real_of_int [of "2::real" e] by (simp add: pow2_def inverse_eq_divide)

lemma pow2_nonpos:
  assumes "k \<le> 52"
  shows "pow2 (k - 52) = 1 / of_int (2 ^ nat (52 - k))"
proof (cases "k = 52")
  case True
  then show ?thesis by (simp add: pow2_def)
next
  case False
  then have "\<not> 0 \<le> k - 52" using assms by simp
  moreover have "- (k - 52) = 52 - k" by simp
  ultimately show ?thesis by (simp only: pow2_def if_False of_int_power of_int_numeral)
qed

lemma to_double_int:
  assumes "0 \<le> n" and "n < 2 ^ 53"
  shows "to_double (of_int n) = of_int n"
proof (cases "n = 0")
  case True
  then show ?thesis by (simp add: to_double_def)
next
  case False
  then have pos: "0 < real_of_int n" using assms(1) by simp
  let ?k = "\<lfloor>log 2 (real_of_int n)\<rfloor>"
  have k: "?k \<le> 52"
    by (rule exponent_le [OF pos real_less_2p53 [OF assms(2)]])
  define N :: int where "N = 2 ^ nat (52 - ?k)"
  have s: "pow2 (?k - 52) = 1 / of_int N"
    unfolding N_def by (rule pow2_nonpos [OF k])
  have N: "0 < N" by (simp add: N_def)
  have "real_of_int n / pow2 (?k - 52) = of_int (n * N)"
    by (simp add: s)
  then have "round_even (real_of_int n / pow2 (?k - 52)) = n * N"
    by (simp only: round_even_int)
  then show ?thesis
    using False N pos by (simp add: to_double_def s)
qed


lemma ceil_to_double_quotient:
  fixes S P :: int
  assumes "0 < S" and "S < 2 ^ 53" and "0 < P"
  shows "\<lceil>to_double (of_int S / of_int P)\<rceil> = \<lceil>real_of_int S / real_of_int P\<rceil>"
proof -
  define x where "x = real_of_int S / real_of_int P"
  define q where "q = \<lceil>x\<rceil>"
  have Ppos: "0 < real_of_int P" and Spos: "0 < real_of_int S"
    using assms(1,3) by simp_all
  have xpos: "0 < x" using Ppos Spos by (simp add: x_def)
  have xP: "x * real_of_int P = real_of_int S"
    using Ppos by (simp add: x_def)
  let ?k = "\<lfloor>log 2 x\<rfloor>"
  have lo: "2 powr of_int ?k \<le> x"
    using log2_bounds(1) [OF xpos] .
  have "1 \<le> real_of_int P" using assms(3) by simp
  then have "x * 1 \<le> x * real_of_int P"
    using xpos by (intro mult_left_mono) simp_all
  then have xS: "x \<le> real_of_int S" using xP by simp
  have S53: "real_of_int S < 2 powr 53"
    by (rule real_less_2p53 [OF assms(2)])
  have k: "?k \<le> 52"
    by (rule exponent_le [OF xpos]) (use xS S53 in linarith)
  define N :: int where "N = 2 ^ nat (52 - ?k)"
  have N: "0 < N" by (simp add: N_def)
  have Nr: "0 < real_of_int N" using N by simp
  have s: "pow2 (?k - 52) = 1 / of_int N"
    unfolding N_def by (rule pow2_nonpos [OF k])
  define m where "m = round_even (x * of_int N)"
  have td: "to_double x = of_int m / of_int N"
    using xpos by (simp add: to_double_def s m_def)
  have "x \<le> of_int q" by (simp add: q_def)
  then have "x * of_int N \<le> of_int q * of_int N"
    using Nr by (intro mult_right_mono) simp_all
  then have "x * of_int N \<le> of_int (q * N)" by simp
  then have mq: "m \<le> q * N"
    unfolding m_def by (rule round_even_le)
  have up: "to_double x \<le> of_int q"
  proof -
    have "real_of_int m \<le> real_of_int (q * N)" using mq by (simp only: of_int_le_iff)
    then have "real_of_int m \<le> of_int q * of_int N" by simp
    then show ?thesis unfolding td using Nr by (simp add: pos_divide_le_eq)
  qed
  have qx: "of_int q - 1 < x" unfolding q_def by linarith
  then have "(of_int q - 1) * of_int P < x * real_of_int P"
    using Ppos by (simp only: mult_less_cancel_right_pos)
  then have "real_of_int ((q - 1) * P) < real_of_int S"
    using xP by simp
  then have "(q - 1) * P < S"
    by (simp only: of_int_less_iff)
  then have "(q - 1) * P + 1 \<le> S" by simp
  then have "real_of_int ((q - 1) * P + 1) \<le> real_of_int S" by (simp only: of_int_le_iff)
  then have "(real_of_int (q - 1) + 1 / of_int P) * of_int P \<le> x * of_int P"
    using Ppos xP by (simp add: algebra_simps)
  then have gap: "real_of_int (q - 1) + 1 / of_int P \<le> x"
    using Ppos by (simp only: mult_le_cancel_right_pos)
  have two: "(2::real) powr 53 = 2 powr of_int ?k * (2 * real_of_int N)"
  proof -
    have "real_of_int N = pow2 (52 - ?k)"
      using k by (simp add: pow2_def N_def)
    then have "2 * real_of_int N = 2 powr 1 * 2 powr of_int (52 - ?k)"
      by (simp add: pow2_powr)
    also have "\<dots> = 2 powr (1 + of_int (52 - ?k))"
      by (simp only: powr_add)
    finally have "2 powr of_int ?k * (2 * real_of_int N)
                    = 2 powr (of_int ?k + (1 + of_int (52 - ?k)))"
      by (simp only: powr_add)
    also have "of_int ?k + (1 + of_int (52 - ?k)) = (53 :: real)" by simp
    finally show ?thesis by simp
  qed
  have "2 powr of_int ?k * real_of_int P \<le> x * real_of_int P"
    using lo Ppos by (simp only: mult_le_cancel_right_pos)
  then have "2 powr of_int ?k * real_of_int P < 2 powr of_int ?k * (2 * real_of_int N)"
    using xP S53 two by linarith
  then have PN: "real_of_int P < 2 * real_of_int N"
    by (simp only: mult_less_cancel_left_pos powr_gt_zero)
  have half: "1 / 2 < real_of_int N / real_of_int P"
    using PN Ppos by (simp add: pos_less_divide_eq)
  have "real_of_int ((q - 1) * N) + 1 / 2 < real_of_int (q - 1) * of_int N + real_of_int N / real_of_int P"
    using half by simp
  also have "\<dots> = (real_of_int (q - 1) + 1 / of_int P) * of_int N"
    by (simp add: algebra_simps)
  also have "\<dots> \<le> x * of_int N"
    using gap Nr by (intro mult_right_mono) simp_all
  finally have "(q - 1) * N < m"
    unfolding m_def by (rule round_even_gt)
  then have "real_of_int ((q - 1) * N) < real_of_int m" by (simp only: of_int_less_iff)
  then have "(real_of_int q - 1) * of_int N < real_of_int m" by simp
  then have low: "of_int q - 1 < to_double x"
    unfolding td using Nr by (simp add: pos_less_divide_eq)
  have "\<lceil>to_double x\<rceil> = q"
    using up low by (simp add: ceiling_eq_iff)
  then show ?thesis
    by (simp add: x_def q_def)
qed


lemma log2_eq:
  assumes "(2::real) ^ k \<le> x" and "x < 2 ^ Suc k"
  shows "\<lfloor>log 2 x\<rfloor> = int k"
proof -
  have "(0::real) < 2 ^ k" by simp
  then have "0 < x" using assms(1) by linarith
  moreover have "(2::real) powr real_of_int (int k) = 2 ^ k"
    by (simp add: powr_realpow)
  moreover have "(2::real) powr real_of_int (int k + 1) = 2 ^ Suc k"
    using powr_realpow [of "2::real" "Suc k"] by (simp add: add.commute)
  ultimately show ?thesis
    using assms floor_log_eq_powr_iff [of x 2 "int k"] by simp
qed

lemma to_double_big: "to_double (of_int 100000000000000001) = 100000000000000000"
proof -
  have k: "\<lfloor>log 2 \<bar>real_of_int 100000000000000001\<bar>\<rfloor> = int 56"
    by (rule log2_eq) simp_all
  have "round_even (100000000000000001 / 16) = 6250000000000000"
    unfolding round_even_def by simp
  then show ?thesis
    unfolding to_double_def k by (simp add: pow2_def)
qed

lemma ceiling_div_iff:
  fixes P S n :: int
  assumes "0 < P"
  shows "\<lceil>real_of_int S / real_of_int P\<rceil> = n \<longleftrightarrow> (n - 1) * P < S \<and> S \<le> n * P"
proof -
  have P: "0 < real_of_int P" using assms by simp
  have "real_of_int n - 1 < real_of_int S / real_of_int P
          \<longleftrightarrow> real_of_int ((n - 1) * P) < real_of_int S"
    using P by (simp add: pos_less_divide_eq)
  moreover have "real_of_int S / real_of_int P \<le> real_of_int n
          \<longleftrightarrow> real_of_int S \<le> real_of_int (n * P)"
    using P by (simp add: pos_divide_le_eq)
  ultimately show ?thesis
    unfolding ceiling_eq_iff of_int_less_iff of_int_le_iff by simp
qed

text \<open>
  Below \<open>2^53\<close> the three roundings do not change the ceiling of the quotient: both
  ints are doubles, and the quotient is rounded by less than its distance \<open>1 / P\<close>
  from the next lower integer.
\<close>

lemma calculatePartCount_exact:
  assumes "0 < multipartPartSizeInternal cfg" and "multipartPartSizeInternal cfg < 2 ^ 53"
    and "0 \<le> S" and "S < 2 ^ 53"
  shows "calculatePartCount cfg S =
           (if internalUser cfg
            then Inr \<lceil>real_of_int S / real_of_int (multipartPartSizeInternal cfg)\<rceil>
            else Inr 1)"
proof (cases "internalUser cfg")
  case False
  then show ?thesis by (simp add: calculatePartCount_def)
next
  case True
  let ?P = "multipartPartSizeInternal cfg"
  let ?c = "\<lceil>real_of_int S / real_of_int ?P\<rceil>"
  have dP: "to_double (of_int ?P) = of_int ?P"
    using assms(1,2) by (intro to_double_int) simp_all
  have dS: "to_double (of_int S) = of_int S"
    by (rule to_double_int [OF assms(3,4)])
  have q: "\<lceil>to_double (real_of_int S / real_of_int ?P)\<rceil> = ?c"
  proof (cases "S = 0")
    case True
    then show ?thesis by (simp add: to_double_def)
  next
    case False
    then have "0 < S" using assms(3) by simp
    then show ?thesis
      by (rule ceil_to_double_quotient [OF _ assms(4) assms(1)])
  qed
  have "0 \<le> real_of_int S / real_of_int ?P"
    using assms(1,3) by simp
  then have c0: "0 \<le> ?c"
    by (simp add: zero_le_ceiling)
  have "real_of_int S / real_of_int ?P \<le> real_of_int S"
    using assms(1,3) by (simp add: divide_le_eq mult_le_cancel_left1)
  then have "?c \<le> \<lceil>real_of_int S\<rceil>"
    by (rule ceiling_mono)
  then have "?c \<le> S"
    by (simp only: ceiling_of_int)
  then have c1: "?c < 2 ^ 53"
    using assms(4) by linarith
  have "double_ceil (to_double (real_of_int S / real_of_int ?P)) = ?c"
    unfolding double_ceil_def q using c0 c1 by simp
  then show ?thesis
    using True assms(1) by (simp add: calculatePartCount_def multipartPartSizeForUpload_def dP dS)
qed

text \<open>
  Claim C2, as amended. For a file size \<open>S\<close> and a part size \<open>P\<close> of the internal tier
  with \<open>0 \<le> S < 2^53\<close> and \<open>0 < P < 2^53\<close>, the part count is \<open>\<lceil>S / P\<rceil>\<close> when
  multi-part upload is permitted, that is the one integer \<open>n\<close> with
  \<open>(n - 1) * P < S \<le> n * P\<close>, and it is 1 when multi-part upload is not permitted. The
  count is at least 1 exactly when multi-part upload is not permitted or the file has at
  least one byte: for an empty file with multi-part upload permitted it is 0.
\<close>

theorem calculatePartCount_ceiling:
  assumes "0 < multipartPartSizeInternal cfg" and "multipartPartSizeInternal cfg < 2 ^ 53"
    and "0 \<le> S" and "S < 2 ^ 53"
  shows "(internalUser cfg \<longrightarrow>
            calculatePartCount cfg S
              = Inr \<lceil>real_of_int S / real_of_int (multipartPartSizeInternal cfg)\<rceil>
            \<and> (\<forall>n. calculatePartCount cfg S = Inr n \<longleftrightarrow>
                   (n - 1) * multipartPartSizeInternal cfg < S
                   \<and> S \<le> n * multipartPartSizeInternal cfg))
       \<and> (\<not> internalUser cfg \<longrightarrow> calculatePartCount cfg S = Inr 1)
       \<and> (case calculatePartCount cfg S of
            Inl e \<Rightarrow> False
          | Inr n \<Rightarrow> (1 \<le> n \<longleftrightarrow> \<not> internalUser cfg \<or> 1 \<le> S))"
proof (cases "internalUser cfg")
  case True
  let ?P = "multipartPartSizeInternal cfg"
  let ?c = "\<lceil>real_of_int S / real_of_int ?P\<rceil>"
  have val: "calculatePartCount cfg S = Inr ?c"
    using calculatePartCount_exact [OF assms] True by simp
  have "0 < ?c \<longleftrightarrow> 0 < real_of_int S / real_of_int ?P"
    by (simp add: less_ceiling_iff)
  also have "\<dots> \<longleftrightarrow> 0 < S"
    using assms(1) by (simp add: zero_less_divide_iff)
  finally have pos: "1 \<le> ?c \<longleftrightarrow> 1 \<le> S"
    by linarith
  have char: "\<forall>n. Inr ?c = (Inr n :: exn + int) \<longleftrightarrow> (n - 1) * ?P < S \<and> S \<le> n * ?P"
    using ceiling_div_iff [OF assms(1), of S] by simp
  show ?thesis
    unfolding val using True pos char by simp
next
  case False
  then show ?thesis
    by (simp add: calculatePartCount_def)
qed

theorem calculatePartCount_ceiling_witness:
  "0 < multipartPartSizeInternal cfg0 \<and> multipartPartSizeInternal cfg0 < 2 ^ 53
   \<and> (0::int) \<le> 25000000 \<and> (25000000::int) < 2 ^ 53
   \<and> calculatePartCount cfg0 25000000 = Inr 3
   \<and> calculatePartCount (cfg0\<lparr>internalUser := False\<rparr>) 25000000 = Inr 1"
  using calculatePartCount_ceiling [of cfg0 25000000]
    calculatePartCount_ceiling [of "cfg0\<lparr>internalUser := False\<rparr>" 25000000]
  by (simp add: cfg0_def)

text \<open>
  Claim C2 as stated fails in two places. For an internal user an empty file is planned
  as zero parts, which is not at least 1. And from \<open>2^53\<close> on the count is not the
  ceiling of the quotient: a file of \<open>10^17 + 1\<close> bytes is rounded to \<open>10^17\<close> when it
  is converted to a double, so that with a part size of \<open>10^7\<close> the code plans
  \<open>10^10\<close> parts where the ceiling of the quotient is \<open>10^10 + 1\<close>.
\<close>

theorem calculatePartCount_zero_counterexample:
  "calculatePartCount cfg0 0 = Inr 0
   \<and> calculatePartCount cfg0 100000000000000001 = Inr 10000000000
   \<and> \<lceil>real_of_int 100000000000000001 / real_of_int (multipartPartSizeInternal cfg0)\<rceil>
       = 10000000001"
proof -
  have z: "calculatePartCount cfg0 0 = Inr 0"
    by (simp add: calculatePartCount_def cfg0_def multipartPartSizeForUpload_def to_double_def
          double_ceil_def)
  have dP: "to_double (real_of_int 10000000) = real_of_int 10000000"
    by (rule to_double_int) simp_all
  have dQ: "to_double (real_of_int 10000000000) = real_of_int 10000000000"
    by (rule to_double_int) simp_all
  have "to_double (to_double (real_of_int 100000000000000001) / to_double (real_of_int 10000000))
          = real_of_int 10000000000"
    unfolding to_double_big dP using dQ by simp
  then have b: "calculatePartCount cfg0 100000000000000001 = Inr 10000000000"
    by (simp add: calculatePartCount_def cfg0_def multipartPartSizeForUpload_def double_ceil_def)
  have c: "\<lceil>real_of_int 100000000000000001 / real_of_int (multipartPartSizeInternal cfg0)\<rceil>
             = 10000000001"
    by (simp add: cfg0_def ceiling_eq_iff)
  show ?thesis
    using z b c by simp
qed

subsection \<open>Resuming a completed session\<close>

lemma uploaded_parts_simps [simp]:
  "uploaded_parts [] = []"
  "uploaded_parts (Put i req out # evs) = i # uploaded_parts evs"
  "uploaded_parts (UpdatePartStatus objKey i t # evs) = uploaded_parts evs"
  "uploaded_parts (UpdateTrackUploadStatus objKey s # evs) = uploaded_parts evs"
  "uploaded_parts (UpdateLastAttempted l h c # evs) = uploaded_parts evs"
  "uploaded_parts (Post url body pout # evs) = uploaded_parts evs"
  "uploaded_parts (evs @ evs') = uploaded_parts evs @ uploaded_parts evs'"
  by (simp_all add: uploaded_parts_def List.map_filter_def)

lemma put_requests_simps [simp]:
  "put_requests [] = []"
  "put_requests (Put i req out # evs) = req # put_requests evs"
  "put_requests (UpdatePartStatus objKey i t # evs) = put_requests evs"
  "put_requests (UpdateTrackUploadStatus objKey s # evs) = put_requests evs"
  "put_requests (UpdateLastAttempted l h c # evs) = put_requests evs"
  "put_requests (Post url body pout # evs) = put_requests evs"
  "put_requests (evs @ evs') = put_requests evs @ put_requests evs'"
  by (simp_all add: put_requests_def List.map_filter_def)

lemma recorded_parts_simps [simp]:
  "recorded_parts [] = []"
  "recorded_parts (Put i req out # evs) = recorded_parts evs"
  "recorded_parts (UpdatePartStatus objKey i t # evs) = i # recorded_parts evs"
  "recorded_parts (UpdateTrackUploadStatus objKey s # evs) = recorded_parts evs"
  "recorded_parts (UpdateLastAttempted l h c # evs) = recorded_parts evs"
  "recorded_parts (Post url body pout # evs) = recorded_parts evs"
  "recorded_parts (evs @ evs') = recorded_parts evs @ recorded_parts evs'"
  by (simp_all add: recorded_parts_def List.map_filter_def)

text \<open>
  Claim C6. Resuming a session whose stored status is \<open>completed\<close> only touches the
  last-attempt stamp: it sends no part, makes no completion call and returns the stored
  object key.
\<close>

theorem resume_completed_noop:
  assumes "getCachedLinks d k = Some row" and "status row = completed"
  shows "putExistingMultipartFile cfg W d k fileLen
           = ([UpdateLastAttempted (fst k) (fst (snd k)) (snd (snd k))],
              Inr (objectKey (urls row)))
         \<and> uploaded_parts (fst (putExistingMultipartFile cfg W d k fileLen)) = []
         \<and> completion_calls (fst (putExistingMultipartFile cfg W d k fileLen)) = []"
  using assms
  by (simp add: putExistingMultipartFile_def completion_calls_def)

theorem resume_completed_noop_witness:
  "getCachedLinks [(key0, row_two_done\<lparr>status := completed\<rparr>)] key0
     = Some (row_two_done\<lparr>status := completed\<rparr>)
   \<and> status (row_two_done\<lparr>status := completed\<rparr>) = completed
   \<and> putExistingMultipartFile cfg0 W0 [(key0, row_two_done\<lparr>status := completed\<rparr>)] key0 30000000
       = ([UpdateLastAttempted ''local'' ''hash'' 7], Inr ''k'')"
  using resume_completed_noop [of "[(key0, row_two_done\<lparr>status := completed\<rparr>)]" key0
          "row_two_done\<lparr>status := completed\<rparr>" cfg0 W0 30000000]
  by (simp add: getCachedLinks_def key0_def row_two_done_def u3_def)

subsection \<open>The declared length of the last part\<close>

text \<open>
  Claim C1 does not hold of the code. A file of 20,000,000 bytes with a part size of
  10,000,000 is planned as two parts; the upload of the second, last part declares a
  content length of \<open>20000000 mod 10000000 = 0\<close> while it streams the 10,000,000 bytes
  from offset 10,000,000 to the end of the file.
\<close>

theorem exact_multiple_last_part_declared_zero:
  "calculatePartCount cfg0 20000000 = Inr 2
   \<and> map contentLength (put_requests (fst (putMultipartFile cfg0 W0 u2 20000000)))
       = [10000000, 0]
   \<and> map (bytes_streamed 20000000) (put_requests (fst (putMultipartFile cfg0 W0 u2 20000000)))
       = [10000000, 10000000]"
proof -
  have "calculatePartCount cfg0 20000000 = Inr 2"
    using calculatePartCount_exact [of cfg0 20000000] by (simp add: cfg0_def)
  then show ?thesis
    by (simp add: putMultipartFile_def uploadParts_def cfg0_def W0_def
          u2_def multipartPartSizeForUpload_def part_request_def completeMultipartUpload_def
          bytes_streamed_def upload_loop.simps skip_uploaded.simps)
qed

text \<open>The same for every file whose length is a multiple of a positive part size.\<close>

lemma exact_multiple_declares_zero:
  assumes "0 < p" and "Suc i = length (partsURLs u)" and "fileLen = int (Suc i) * p"
  shows "contentLength (part_request u fileLen p i) = 0
         \<and> bytes_streamed fileLen (part_request u fileLen p i) = p"
  using assms(1,3)
  by (simp add: part_request_def bytes_streamed_def assms(2) [symmetric] algebra_simps)

subsection \<open>The upload loop\<close>

lemma upload_loop_result_induct:
  assumes fin: "\<And>i m. length (partsURLs u) \<le> i \<Longrightarrow> P i m ([], Inr m)"
    and div0: "\<And>i m. Suc i = length (partsURLs u) \<Longrightarrow> p = 0
                 \<Longrightarrow> P i m ([], Inl IntegerDivisionByZero)"
    and throw: "\<And>i m e. i < length (partsURLs u) \<Longrightarrow> \<not> (Suc i = length (partsURLs u) \<and> p = 0)
                 \<Longrightarrow> s3_put W i (part_request u fl p i) = PutThrows e
                 \<Longrightarrow> P i m ([Put i (part_request u fl p i) (PutThrows e)], Inl e)"
    and missing: "\<And>i m h. i < length (partsURLs u) \<Longrightarrow> \<not> (Suc i = length (partsURLs u) \<and> p = 0)
                 \<Longrightarrow> s3_put W i (part_request u fl p i) = PutResponse h
                 \<Longrightarrow> h = None \<or> h = Some []
                 \<Longrightarrow> P i m ([Put i (part_request u fl p i) (PutResponse h)], Inl ETAG_MISSING)"
    and step: "\<And>i m t evs r. i < length (partsURLs u)
                 \<Longrightarrow> \<not> (Suc i = length (partsURLs u) \<and> p = 0)
                 \<Longrightarrow> s3_put W i (part_request u fl p i) = PutResponse (Some t)
                 \<Longrightarrow> t \<noteq> []
                 \<Longrightarrow> upload_loop W u fl p (Suc i) (map_put m i t) = (evs, r)
                 \<Longrightarrow> P (Suc i) (map_put m i t) (evs, r)
                 \<Longrightarrow> P i m (Put i (part_request u fl p i) (PutResponse (Some t))
                            # UpdatePartStatus (objectKey u) i t # evs, r)"
  shows "P i m (upload_loop W u fl p i m)"
proof (induction "length (partsURLs u) - i" arbitrary: i m)
  case 0
  then have "length (partsURLs u) \<le> i" by simp
  then show ?case
    using fin [of i m] by (subst upload_loop.simps) simp
next
  case (Suc k)
  then have lt: "i < length (partsURLs u)" by simp
  have last_iff: "(int i = int (length (partsURLs u)) - 1) = (Suc i = length (partsURLs u))"
    using lt by auto
  show ?case
  proof (cases "Suc i = length (partsURLs u) \<and> p = 0")
    case True
    have eq: "upload_loop W u fl p i m = ([], Inl IntegerDivisionByZero)"
      by (subst upload_loop.simps) (use True lt last_iff in auto)
    show ?thesis
      unfolding eq using div0 True by blast
  next
    case nz: False
    show ?thesis
    proof (cases "s3_put W i (part_request u fl p i)")
      case (PutThrows e)
      have eq: "upload_loop W u fl p i m
                  = ([Put i (part_request u fl p i) (PutThrows e)], Inl e)"
        by (subst upload_loop.simps) (use nz lt last_iff PutThrows in auto)
      show ?thesis
        unfolding eq by (rule throw [OF lt nz PutThrows])
    next
      case (PutResponse h)
      show ?thesis
      proof (cases "h = None \<or> h = Some []")
        case True
        have eq: "upload_loop W u fl p i m
                    = ([Put i (part_request u fl p i) (PutResponse h)], Inl ETAG_MISSING)"
          by (subst upload_loop.simps) (use nz lt last_iff PutResponse True in auto)
        show ?thesis
          unfolding eq by (rule missing [OF lt nz PutResponse True])
      next
        case False
        then obtain t where h: "h = Some t" and t: "t \<noteq> []" by auto
        obtain evs r where rec: "upload_loop W u fl p (Suc i) (map_put m i t) = (evs, r)"
          by (cases "upload_loop W u fl p (Suc i) (map_put m i t)") auto
        have k: "k = length (partsURLs u) - Suc i" using Suc.hyps(2) by simp
        have "P (Suc i) (map_put m i t) (upload_loop W u fl p (Suc i) (map_put m i t))"
          by (rule Suc.hyps(1) [OF k])
        then have ih: "P (Suc i) (map_put m i t) (evs, r)" by (simp add: rec)
        have eq: "upload_loop W u fl p i m
                    = (Put i (part_request u fl p i) (PutResponse (Some t))
                         # UpdatePartStatus (objectKey u) i t # evs, r)"
          by (subst upload_loop.simps) (use nz lt last_iff PutResponse h t rec in auto)
        show ?thesis
          unfolding eq by (rule step [OF lt nz PutResponse [unfolded h] t rec ih])
      qed
    qed
  qed
qed

subsection \<open>Where the upload resumes\<close>

lemma skip_uploaded_None: "skip_uploaded None i = i"
  by (subst skip_uploaded.simps) simp



lemma first_unset_le: "first_unset st \<le> length st"
  by (simp add: first_unset_def length_takeWhile_le)







lemma answers_allD:
  "answers_all W \<Longrightarrow> \<exists>t. s3_put W i req = PutResponse (Some t) \<and> t \<noteq> []"
  by (simp add: answers_all_def)




lemma uploadParts_unfold:
  "uploadParts cfg W row fl =
     (case upload_loop W (urls row) fl (part_size_of cfg row)
             (skip_uploaded (partUploadStatus row) 0) (etags_of row) of
        (evs, Inl e) \<Rightarrow> (evs, Inl e)
      | (evs, Inr m) \<Rightarrow>
          (evs @ [UpdateTrackUploadStatus (objectKey (urls row)) uploaded], Inr m))"
  by (simp add: uploadParts_def part_size_of_def etags_of_def)

lemma uploadParts_fst:
  "fst (uploadParts cfg W row fl) =
     fst (upload_loop W (urls row) fl (part_size_of cfg row)
            (skip_uploaded (partUploadStatus row) 0) (etags_of row))
     @ (case snd (upload_loop W (urls row) fl (part_size_of cfg row)
                    (skip_uploaded (partUploadStatus row) 0) (etags_of row)) of
          Inl e \<Rightarrow> []
        | Inr m \<Rightarrow> [UpdateTrackUploadStatus (objectKey (urls row)) uploaded])"
  by (simp add: uploadParts_unfold split: prod.splits sum.splits)

lemma uploadParts_snd:
  "snd (uploadParts cfg W row fl) =
     snd (upload_loop W (urls row) fl (part_size_of cfg row)
            (skip_uploaded (partUploadStatus row) 0) (etags_of row))"
  by (simp add: uploadParts_unfold split: prod.splits sum.splits)

lemma completeMultipartUpload_fst:
  "fst (completeMultipartUpload W objKey m url) =
     Post url (completion_body W m) (s3_post W url (completion_body W m))
       # (case s3_post W url (completion_body W m) of
            PostThrows e \<Rightarrow> []
          | PostOK \<Rightarrow> [UpdateTrackUploadStatus objKey completed])"
  by (simp add: completeMultipartUpload_def split: post_outcome.splits)


lemma putExisting_pending_fst:
  assumes "getCachedLinks d k = Some row" and "status row = pending"
  shows "fst (putExistingMultipartFile cfg W d k fl) =
           UpdateLastAttempted (fst k) (fst (snd k)) (snd (snd k))
             # fst (uploadParts cfg W row fl)
             @ (case snd (uploadParts cfg W row fl) of
                  Inl e \<Rightarrow> []
                | Inr m \<Rightarrow> fst (completeMultipartUpload W (objectKey (urls row)) m
                                  (completeURL (urls row))))"
  using assms
  by (cases "uploadParts cfg W row fl")
     (auto simp: putExistingMultipartFile_def split: prod.splits sum.splits)



lemma sent_parts_simps [simp]:
  "sent_parts [] = []"
  "sent_parts (Put i req out # evs)
     = (i, partURL req, range_start req, range_end req) # sent_parts evs"
  "sent_parts (UpdatePartStatus objKey i t # evs) = sent_parts evs"
  "sent_parts (UpdateTrackUploadStatus objKey s # evs) = sent_parts evs"
  "sent_parts (UpdateLastAttempted l h c # evs) = sent_parts evs"
  "sent_parts (Post url body pout # evs) = sent_parts evs"
  "sent_parts (evs @ evs') = sent_parts evs @ sent_parts evs'"
  by (simp_all add: sent_parts_def List.map_filter_def)










subsection \<open>What a trace does to a stored row\<close>

lemma map_of_map_put: "map_of (map_put m k v) = (map_of m)(k \<mapsto> v)"
  by (induction m k v rule: map_put.induct) auto

lemma updatePartStatus_fields [simp]:
  "urls (updatePartStatus objKey i t row) = urls row"
  "status (updatePartStatus objKey i t row) = status row"
  "partSize (updatePartStatus objKey i t row) = partSize row"
  "partUploadStatus (updatePartStatus objKey i t row) =
     (if objKey = objectKey (urls row)
      then map_option (\<lambda>xs. xs[i := True]) (partUploadStatus row)
      else partUploadStatus row)"
  "map_of (etags_of (updatePartStatus objKey i t row)) j =
     (if objKey = objectKey (urls row) \<and> i = j then Some t else map_of (etags_of row) j)"
  by (auto simp: updatePartStatus_def etags_of_def map_of_map_put)

lemma updateTrackUploadStatus_fields [simp]:
  "urls (updateTrackUploadStatus objKey s row) = urls row"
  "status (updateTrackUploadStatus objKey s row) =
     (if objKey = objectKey (urls row) then s else status row)"
  "partSize (updateTrackUploadStatus objKey s row) = partSize row"
  "partUploadStatus (updateTrackUploadStatus objKey s row) = partUploadStatus row"
  "etags_of (updateTrackUploadStatus objKey s row) = etags_of row"
  by (auto simp: updateTrackUploadStatus_def etags_of_def)

lemma row_apply_urls [simp]: "urls (row_apply row e) = urls row"
  by (cases e) simp_all

lemma row_apply_partSize [simp]: "partSize (row_apply row e) = partSize row"
  by (cases e) simp_all

lemma row_run_simps [simp]:
  "row_run row [] = row"
  "row_run row (e # evs) = row_run (row_apply row e) evs"
  "row_run row (evs @ evs') = row_run (row_run row evs) evs'"
  by (simp_all add: row_run_def)

lemma row_run_urls [simp]: "urls (row_run row evs) = urls row"
  by (induction evs arbitrary: row) simp_all

lemma row_run_partSize [simp]: "partSize (row_run row evs) = partSize row"
  by (induction evs arbitrary: row) simp_all

lemma getCachedLinks_db_apply:
  "getCachedLinks (db_apply d e) k = map_option (\<lambda>row. row_apply row e) (getCachedLinks d k)"
  unfolding getCachedLinks_def db_apply_def
  by (induction d) auto

lemma getCachedLinks_db_run:
  "getCachedLinks (db_run d evs) k = map_option (\<lambda>row. row_run row evs) (getCachedLinks d k)"
proof (induction evs arbitrary: d)
  case Nil
  then show ?case by (simp add: db_run_def option.map_ident)
next
  case (Cons e evs)
  have "getCachedLinks (db_run d (e # evs)) k = getCachedLinks (db_run (db_apply d e) evs) k"
    by (simp add: db_run_def)
  then show ?case
    by (simp add: Cons.IH getCachedLinks_db_apply option.map_comp comp_def)
qed











subsection \<open>The order of persistence\<close>

lemma loop_events_kind:
  "\<forall>e \<in> set (fst (upload_loop W u fl p i m)). put_index e \<noteq> None \<or> recorded_index e \<noteq> None"
  by (rule upload_loop_result_induct
        [where P = "\<lambda>i m res. \<forall>e \<in> set (fst res). put_index e \<noteq> None \<or> recorded_index e \<noteq> None"])
     simp_all

lemma loop_event_cases:
  assumes "e \<in> set (fst (upload_loop W u fl p i m))"
  shows "\<not> is_post e \<and> \<not> failed_post e \<and> \<not> marks_completed e
         \<and> (\<forall>objKey s. e \<noteq> UpdateTrackUploadStatus objKey s)"
  using loop_events_kind [of W u fl p i m] assms
  by (cases e) auto

lemma persist_ordered_append:
  "persist_ordered prev (evs @ evs') \<longleftrightarrow>
     persist_ordered prev evs
     \<and> persist_ordered (if evs = [] then prev else Some (last evs)) evs'"
  by (induction evs arbitrary: prev) auto

lemma loop_persist_ordered:
  "\<forall>prev. persist_ordered prev (fst (upload_loop W u fl p i m))"
  by (rule upload_loop_result_induct
        [where P = "\<lambda>i m res. \<forall>prev. persist_ordered prev (fst res)"])
     simp_all

lemma complete_persist_ordered:
  "persist_ordered prev (fst (completeMultipartUpload W objKey m url))"
  by (simp add: completeMultipartUpload_fst split: post_outcome.splits)

lemma uploadParts_persist_ordered:
  "persist_ordered prev (fst (uploadParts cfg W row fl))"
  using loop_persist_ordered [of W "urls row" fl "part_size_of cfg row"
          "skip_uploaded (partUploadStatus row) 0" "etags_of row"]
  by (simp add: uploadParts_fst persist_ordered_append split: sum.splits)

lemma persist_ordered_nth:
  assumes "persist_ordered prev evs" and "n < length evs"
  shows "confirmed_before (if n = 0 then prev else Some (evs ! (n - 1))) (evs ! n)"
  using assms
proof (induction evs arbitrary: prev n)
  case Nil
  then show ?case by simp
next
  case (Cons e evs)
  show ?case
  proof (cases n)
    case 0
    then show ?thesis using Cons.prems by simp
  next
    case (Suc n')
    then have "confirmed_before (if n' = 0 then Some e else Some (evs ! (n' - 1))) (evs ! n')"
      using Cons.IH [of "Some e" n'] Cons.prems by simp
    then show ?thesis
      using Suc by (cases n') simp_all
  qed
qed

lemma putExisting_other_fst:
  assumes "getCachedLinks d k = Some row" and "status row \<noteq> pending"
  shows "fst (putExistingMultipartFile cfg W d k fl) =
           UpdateLastAttempted (fst k) (fst (snd k)) (snd (snd k))
             # (if status row \<noteq> completed
                then fst (completeMultipartUpload W (objectKey (urls row)) (etags_of row)
                            (completeURL (urls row)))
                else [])"
  using assms
  by (auto simp: putExistingMultipartFile_def etags_of_def split: prod.splits sum.splits)

lemma putExisting_none: 
  "getCachedLinks d k = None \<Longrightarrow> putExistingMultipartFile cfg W d k fl = ([], Inl NoCachedLinks)"
  by (simp add: putExistingMultipartFile_def)

lemma putMultipartFile_fst:
  "fst (putMultipartFile cfg W u fl) =
     fst (uploadParts cfg W
            \<lparr>urls = u, status = pending, partUploadStatus = None, partETags = None,
             partSize = None\<rparr> fl)
     @ (case snd (uploadParts cfg W
                    \<lparr>urls = u, status = pending, partUploadStatus = None, partETags = None,
                     partSize = None\<rparr> fl) of
          Inl e \<Rightarrow> []
        | Inr m \<Rightarrow> fst (completeMultipartUpload W (objectKey u) m (completeURL u)))"
  by (cases "uploadParts cfg W
            \<lparr>urls = u, status = pending, partUploadStatus = None, partETags = None,
             partSize = None\<rparr> fl")
     (auto simp: putMultipartFile_def split: prod.splits sum.splits)

lemma putExisting_persist_ordered:
  "persist_ordered None (fst (putExistingMultipartFile cfg W d k fl))"
proof (cases "getCachedLinks d k")
  case None
  then show ?thesis by (simp add: putExisting_none)
next
  case (Some row)
  show ?thesis
  proof (cases "status row = pending")
    case True
    show ?thesis
      by (simp add: putExisting_pending_fst [OF Some True] persist_ordered_append
            uploadParts_persist_ordered complete_persist_ordered split: sum.splits)
  next
    case False
    show ?thesis
      by (simp add: putExisting_other_fst [OF Some False] complete_persist_ordered)
  qed
qed

lemma putMultipartFile_persist_ordered:
  "persist_ordered None (fst (putMultipartFile cfg W u fl))"
  by (simp add: putMultipartFile_fst persist_ordered_append
        uploadParts_persist_ordered complete_persist_ordered split: sum.splits)

lemma uploadParts_no_post:
  assumes "e \<in> set (fst (uploadParts cfg W row fl))"
  shows "\<not> is_post e \<and> \<not> failed_post e \<and> \<not> marks_completed e"
  using assms loop_event_cases [of e W "urls row" fl "part_size_of cfg row"
          "skip_uploaded (partUploadStatus row) 0" "etags_of row"]
  by (auto simp: uploadParts_fst split: sum.splits)

lemma complete_failed_or_marked:
  "\<not> (list_ex failed_post (fst (completeMultipartUpload W objKey m url))
      \<and> list_ex marks_completed (fst (completeMultipartUpload W objKey m url)))"
  by (simp add: completeMultipartUpload_fst split: post_outcome.splits)

lemma failed_marked_append:
  assumes "\<forall>e \<in> set evs. \<not> failed_post e \<and> \<not> marks_completed e"
    and "\<not> (list_ex failed_post evs' \<and> list_ex marks_completed evs')"
  shows "\<not> (list_ex failed_post (evs @ evs') \<and> list_ex marks_completed (evs @ evs'))"
  using assms by (auto simp: list_ex_iff)

lemma uploadParts_then_complete:
  "\<not> (list_ex failed_post
         (fst (uploadParts cfg W row fl)
          @ (case snd (uploadParts cfg W row fl) of
               Inl e \<Rightarrow> []
             | Inr m \<Rightarrow> fst (completeMultipartUpload W objKey m url)))
      \<and> list_ex marks_completed
         (fst (uploadParts cfg W row fl)
          @ (case snd (uploadParts cfg W row fl) of
               Inl e \<Rightarrow> []
             | Inr m \<Rightarrow> fst (completeMultipartUpload W objKey m url))))"
proof (rule failed_marked_append)
  show "\<forall>e \<in> set (fst (uploadParts cfg W row fl)). \<not> failed_post e \<and> \<not> marks_completed e"
    using uploadParts_no_post by blast
  show "\<not> (list_ex failed_post
              (case snd (uploadParts cfg W row fl) of
                 Inl e \<Rightarrow> []
               | Inr m \<Rightarrow> fst (completeMultipartUpload W objKey m url))
           \<and> list_ex marks_completed
              (case snd (uploadParts cfg W row fl) of
                 Inl e \<Rightarrow> []
               | Inr m \<Rightarrow> fst (completeMultipartUpload W objKey m url)))"
  proof (cases "snd (uploadParts cfg W row fl)")
    case (Inl e)
    then show ?thesis by simp
  next
    case (Inr m)
    then show ?thesis using complete_failed_or_marked [of W objKey m url] by simp
  qed
qed

lemma putExisting_failed_finalize:
  assumes "list_ex failed_post (fst (putExistingMultipartFile cfg W d k fl))"
  shows "\<not> list_ex marks_completed (fst (putExistingMultipartFile cfg W d k fl))"
proof (cases "getCachedLinks d k")
  case None
  then show ?thesis by (simp add: putExisting_none)
next
  case (Some row)
  show ?thesis
  proof (cases "status row = pending")
    case True
    show ?thesis
      using assms
        uploadParts_then_complete [of cfg W row fl "objectKey (urls row)" "completeURL (urls row)"]
      by (simp add: putExisting_pending_fst [OF Some True])
  next
    case False
    show ?thesis
      using assms
        complete_failed_or_marked [of W "objectKey (urls row)" "etags_of row" "completeURL (urls row)"]
      by (simp add: putExisting_other_fst [OF Some False] split: if_splits)
  qed
qed

lemma putMultipartFile_failed_finalize:
  assumes "list_ex failed_post (fst (putMultipartFile cfg W u fl))"
  shows "\<not> list_ex marks_completed (fst (putMultipartFile cfg W u fl))"
  using assms
    uploadParts_then_complete [of cfg W
      "\<lparr>urls = u, status = pending, partUploadStatus = None, partETags = None,
        partSize = None\<rparr>" fl "objectKey u" "completeURL u"]
  unfolding putMultipartFile_fst by blast

text \<open>
  Claim C7. In every run of either entry point, whatever the object store answers: a
  write that records a part comes directly after the upload request of that same part,
  whose response carried exactly the recorded identifier, and the identifier is not
  empty; a write that marks the session completed comes directly after a finalize call
  that succeeded; and a run whose finalize call failed writes no completed mark at all.
\<close>

theorem persistence_order:
  "persist_ordered None (fst (putExistingMultipartFile cfg W d k fl))
   \<and> persist_ordered None (fst (putMultipartFile cfg W u fl))
   \<and> (list_ex failed_post (fst (putExistingMultipartFile cfg W d k fl))
        \<longrightarrow> \<not> list_ex marks_completed (fst (putExistingMultipartFile cfg W d k fl)))
   \<and> (list_ex failed_post (fst (putMultipartFile cfg W u fl))
        \<longrightarrow> \<not> list_ex marks_completed (fst (putMultipartFile cfg W u fl)))"
  using putExisting_persist_ordered putMultipartFile_persist_ordered
    putExisting_failed_finalize putMultipartFile_failed_finalize
  by blast


theorem persistence_order_witness:
  "fst (putExistingMultipartFile cfg0 W0 [(key0, row_two_done)] key0 30000000)
     = [UpdateLastAttempted ''local'' ''hash'' 7,
        Put 2 \<lparr>partURL = ''p2'', range_start = 20000000, range_end = None,
               contentLength = 0\<rparr> (PutResponse (Some ''e'')),
        UpdatePartStatus ''k'' 2 ''e'',
        UpdateTrackUploadStatus ''k'' uploaded,
        Post ''c'' ''<x/>'' PostOK,
        UpdateTrackUploadStatus ''k'' completed]
   \<and> persist_ordered None (fst (putExistingMultipartFile cfg0 W0 [(key0, row_two_done)] key0 30000000))
   \<and> fst (putExistingMultipartFile cfg0 W_post_fails [(key0, row_all_done)] key0 30000000)
       = [UpdateLastAttempted ''local'' ''hash'' 7, Post ''c'' ''<x/>'' (PostThrows (Thrown ''503''))]
   \<and> list_ex failed_post (fst (putExistingMultipartFile cfg0 W_post_fails [(key0, row_all_done)] key0 30000000))
   \<and> \<not> list_ex marks_completed (fst (putExistingMultipartFile cfg0 W_post_fails [(key0, row_all_done)] key0 30000000))"
  using persistence_order [of cfg0 W0 "[(key0, row_two_done)]" key0 30000000 u3]
    persistence_order [of cfg0 W_post_fails "[(key0, row_all_done)]" key0 30000000 u3]
  by (simp add: putExistingMultipartFile_def getCachedLinks_def key0_def row_two_done_def
        row_all_done_def uploadParts_def upload_loop.simps skip_uploaded.simps W0_def
        W_post_fails_def u3_def part_request_def completeMultipartUpload_def
        completion_body_def completion_parts_def)

subsection \<open>A failed finalize call\<close>

lemma completion_calls_complete:
  "length (completion_calls (fst (completeMultipartUpload W objKey m url))) = 1"
  by (simp add: completeMultipartUpload_fst completion_calls_def split: post_outcome.splits)




subsection \<open>The status only advances\<close>

lemma never_regresses_append:
  "never_regresses row (evs @ evs') \<longleftrightarrow>
     never_regresses row evs \<and> never_regresses (row_run row evs) evs'"
  by (induction evs arbitrary: row) auto

lemma status_rank_le: "status_rank s \<le> 2"
  by (cases s) simp_all

lemma quiet_trace:
  assumes "\<forall>e \<in> set evs. \<forall>objKey s. e \<noteq> UpdateTrackUploadStatus objKey s"
  shows "never_regresses row evs \<and> status (row_run row evs) = status row"
  using assms
proof (induction evs arbitrary: row)
  case Nil
  then show ?case by simp
next
  case (Cons e evs)
  have "status (row_apply row e) = status row"
    using Cons.prems by (cases e) auto
  then show ?case
    using Cons.IH [of "row_apply row e"] Cons.prems by simp
qed

lemma loop_quiet:
  "never_regresses row (fst (upload_loop W u fl p i m))
   \<and> status (row_run row (fst (upload_loop W u fl p i m))) = status row"
  by (rule quiet_trace) (use loop_event_cases in blast)

lemma uploadParts_never_regresses:
  assumes "status row \<noteq> completed"
  shows "never_regresses row (fst (uploadParts cfg W info fl))"
proof -
  have "status_rank (status row) \<le> Suc 0"
    using assms by (cases "status row") simp_all
  then show ?thesis
    using loop_quiet [of row W "urls info" fl "part_size_of cfg info"
            "skip_uploaded (partUploadStatus info) 0" "etags_of info"]
    by (simp add: uploadParts_fst never_regresses_append split: sum.splits)
qed

lemma complete_never_regresses:
  "never_regresses row (fst (completeMultipartUpload W objKey m url))"
  by (simp add: completeMultipartUpload_fst status_rank_le split: post_outcome.splits)

lemma putExisting_never_regresses:
  assumes "getCachedLinks d k = Some row"
  shows "never_regresses row (fst (putExistingMultipartFile cfg W d k fl))"
proof (cases "status row = pending")
  case True
  then have "status row \<noteq> completed" by simp
  then show ?thesis
    using uploadParts_never_regresses [of row cfg W row fl]
    by (simp add: putExisting_pending_fst [OF assms True] never_regresses_append
          complete_never_regresses split: sum.splits)
next
  case False
  show ?thesis
    by (simp add: putExisting_other_fst [OF assms False] complete_never_regresses)
qed

lemma putMultipartFile_never_regresses:
  assumes "status row = pending"
  shows "never_regresses row (fst (putMultipartFile cfg W u fl))"
proof -
  have "status row \<noteq> completed" using assms by simp
  then show ?thesis
    using uploadParts_never_regresses [of row cfg W _ fl]
    by (simp add: putMultipartFile_fst never_regresses_append complete_never_regresses
          split: sum.splits)
qed

lemma never_regresses_bound:
  assumes "never_regresses row evs" and "x \<in> set (row_states row evs)"
  shows "status_rank (status row) \<le> status_rank (status x)"
  using assms
proof (induction evs arbitrary: row)
  case Nil
  then show ?case by simp
next
  case (Cons e evs)
  show ?case
  proof (cases "x = row")
    case True
    then show ?thesis by simp
  next
    case False
    then have "x \<in> set (row_states (row_apply row e) evs)"
      using Cons.prems(2) by simp
    then have "status_rank (status (row_apply row e)) \<le> status_rank (status x)"
      using Cons.IH [of "row_apply row e"] Cons.prems(1) by simp
    then show ?thesis
      using Cons.prems(1) by simp
  qed
qed

lemma never_regresses_sorted:
  assumes "never_regresses row evs"
  shows "sorted (map (status_rank \<circ> status) (row_states row evs))"
  using assms
proof (induction evs arbitrary: row)
  case Nil
  then show ?case by simp
next
  case (Cons e evs)
  have "\<forall>x \<in> set (row_states (row_apply row e) evs).
          status_rank (status row) \<le> status_rank (status x)"
    using never_regresses_bound [of "row_apply row e" evs] Cons.prems by fastforce
  then show ?case
    using Cons.IH [of "row_apply row e"] Cons.prems by simp
qed

lemma row_states_nth:
  "n \<le> length evs \<Longrightarrow> row_states row evs ! n = row_run row (take n evs)"
proof (induction evs arbitrary: row n)
  case Nil
  then show ?case by simp
next
  case (Cons e evs)
  then show ?case by (cases n) simp_all
qed

lemma length_row_states [simp]: "length (row_states row evs) = Suc (length evs)"
  by (induction evs arbitrary: row) simp_all

lemma never_regresses_observed:
  assumes "never_regresses row evs" and "a \<le> b" and "b \<le> length evs"
  shows "status_rank (status (row_run row (take a evs)))
           \<le> status_rank (status (row_run row (take b evs)))"
proof -
  have "sorted (map (status_rank \<circ> status) (row_states row evs))"
    by (rule never_regresses_sorted [OF assms(1)])
  then have "map (status_rank \<circ> status) (row_states row evs) ! a
               \<le> map (status_rank \<circ> status) (row_states row evs) ! b"
    using assms(2,3) by (intro sorted_nth_mono) simp_all
  then show ?thesis
    using assms(2,3) by (simp add: row_states_nth)
qed

lemma run_op_never_regresses:
  assumes "getCachedLinks d k = Some row"
    and "\<not> is_fresh x \<or> map_option status (getCachedLinks d k) = Some pending"
  shows "never_regresses row (run_op cfg d k x)"
proof (cases x)
  case (Resume W fl)
  then show ?thesis
    using putExisting_never_regresses [OF assms(1), of cfg W fl] by simp
next
  case (Fresh W fl)
  then have "status row = pending"
    using assms by simp
  then show ?thesis
    using putMultipartFile_never_regresses [of row cfg W "urls row" fl] Fresh assms(1) by simp
qed

lemma run_ops_never_regresses:
  assumes "getCachedLinks d k = Some row" and "fresh_while_pending cfg xs d k"
  shows "never_regresses row (run_ops cfg xs d k)"
  using assms
proof (induction xs arbitrary: d row)
  case Nil
  then show ?case by simp
next
  case (Cons x xs)
  let ?evs = "run_op cfg d k x"
  have next_row: "getCachedLinks (db_run d ?evs) k = Some (row_run row ?evs)"
    by (simp add: getCachedLinks_db_run Cons.prems(1))
  have one: "never_regresses row ?evs"
    using run_op_never_regresses [OF Cons.prems(1)] Cons.prems(2) by simp
  have rest: "never_regresses (row_run row ?evs) (run_ops cfg xs (db_run d ?evs) k)"
    using Cons.IH [OF next_row] Cons.prems(2) by simp
  show ?case
    using one rest by (simp add: never_regresses_append)
qed

text \<open>
  Claim C9, as amended. Take the stored row of a session and any sequence of resumes and
  fresh uploads of the session, in any worlds, in which every fresh upload starts while
  the stored status is \<open>pending\<close>, as it is when the row has just been created. Along
  the whole trace the rank of the stored status never decreases: the list of the statuses
  the row goes through is sorted, a status observed in the store after \<open>a\<close> events is
  at most the one observed after \<open>b \<ge> a\<close> events, and once \<open>completed\<close> is observed it
  is observed ever after.
\<close>

theorem status_never_regresses:
  assumes "getCachedLinks d k = Some row" and "fresh_while_pending cfg xs d k"
  shows "sorted (map (status_rank \<circ> status) (row_states row (run_ops cfg xs d k)))
         \<and> (\<forall>a b ra rb. a \<le> b \<and> b \<le> length (run_ops cfg xs d k)
               \<and> getCachedLinks (db_run d (take a (run_ops cfg xs d k))) k = Some ra
               \<and> getCachedLinks (db_run d (take b (run_ops cfg xs d k))) k = Some rb
               \<longrightarrow> status_rank (status ra) \<le> status_rank (status rb)
                   \<and> (status ra = completed \<longrightarrow> status rb = completed))"
proof -
  let ?evs = "run_ops cfg xs d k"
  have nr: "never_regresses row ?evs"
    by (rule run_ops_never_regresses [OF assms])
  have s1: "sorted (map (status_rank \<circ> status) (row_states row ?evs))"
    by (rule never_regresses_sorted [OF nr])
  have s2: "status_rank (status ra) \<le> status_rank (status rb)
              \<and> (status ra = completed \<longrightarrow> status rb = completed)"
    if ab: "a \<le> b" "b \<le> length ?evs"
      and ra: "getCachedLinks (db_run d (take a ?evs)) k = Some ra"
      and rb: "getCachedLinks (db_run d (take b ?evs)) k = Some rb" for a b ra rb
  proof -
    have "ra = row_run row (take a ?evs)" "rb = row_run row (take b ?evs)"
      using ra rb by (simp_all add: getCachedLinks_db_run assms(1))
    then have le: "status_rank (status ra) \<le> status_rank (status rb)"
      using never_regresses_observed [OF nr ab] by simp
    moreover have "status rb = completed" if "status ra = completed"
      using le that by (cases "status rb") simp_all
    ultimately show ?thesis by simp
  qed
  show ?thesis
    using s1 s2 by blast
qed

theorem status_never_regresses_witness:
  "getCachedLinks [(key0, row_none_done)] key0 = Some row_none_done
   \<and> fresh_while_pending cfg0 [Fresh W_post_fails 25000000, Resume W0 25000000]
        [(key0, row_none_done)] key0
   \<and> map status (row_states row_none_done
          (run_ops cfg0 [Fresh W_post_fails 25000000, Resume W0 25000000]
             [(key0, row_none_done)] key0))
       = [pending, pending, pending, pending, pending, pending, pending, uploaded, uploaded,
          uploaded, uploaded, completed]
   \<and> sorted (map (status_rank \<circ> status) (row_states row_none_done
          (run_ops cfg0 [Fresh W_post_fails 25000000, Resume W0 25000000]
             [(key0, row_none_done)] key0)))"
proof -
  have h: "getCachedLinks [(key0, row_none_done)] key0 = Some row_none_done"
    by (simp add: getCachedLinks_def)
  have u: "urls row_none_done = u3" "status row_none_done = pending"
    by (simp_all add: row_none_done_def)
  have run1: "fst (putMultipartFile cfg0 W_post_fails u3 25000000)
     = [Put 0 \<lparr>partURL = ''p0'', range_start = 0, range_end = Some 10000000,
               contentLength = 10000000\<rparr> (PutResponse (Some ''e'')),
        UpdatePartStatus ''k'' 0 ''e'',
        Put 1 \<lparr>partURL = ''p1'', range_start = 10000000, range_end = Some 20000000,
               contentLength = 10000000\<rparr> (PutResponse (Some ''e'')),
        UpdatePartStatus ''k'' 1 ''e'',
        Put 2 \<lparr>partURL = ''p2'', range_start = 20000000, range_end = None,
               contentLength = 5000000\<rparr> (PutResponse (Some ''e'')),
        UpdatePartStatus ''k'' 2 ''e'',
        UpdateTrackUploadStatus ''k'' uploaded,
        Post ''c'' ''<x/>'' (PostThrows (Thrown ''503''))]"
    by (simp add: putMultipartFile_def cfg0_def multipartPartSizeForUpload_def
        uploadParts_def upload_loop.simps skip_uploaded.simps W0_def
        W_post_fails_def u3_def part_request_def completeMultipartUpload_def
        completion_body_def completion_parts_def)
  have db1: "db_run [(key0, row_none_done)]
       [Put 0 \<lparr>partURL = ''p0'', range_start = 0, range_end = Some 10000000,
               contentLength = 10000000\<rparr> (PutResponse (Some ''e'')),
        UpdatePartStatus ''k'' 0 ''e'',
        Put 1 \<lparr>partURL = ''p1'', range_start = 10000000, range_end = Some 20000000,
               contentLength = 10000000\<rparr> (PutResponse (Some ''e'')),
        UpdatePartStatus ''k'' 1 ''e'',
        Put 2 \<lparr>partURL = ''p2'', range_start = 20000000, range_end = None,
               contentLength = 5000000\<rparr> (PutResponse (Some ''e'')),
        UpdatePartStatus ''k'' 2 ''e'',
        UpdateTrackUploadStatus ''k'' uploaded,
        Post ''c'' ''<x/>'' (PostThrows (Thrown ''503''))]
     = [(key0, \<lparr>urls = u3, status = uploaded, partUploadStatus = Some [True, True, True],
                partETags = Some [(0, ''e''), (1, ''e''), (2, ''e'')],
                partSize = Some 10000000\<rparr>)]"
    by (simp add: db_run_def db_apply_def row_none_done_def updatePartStatus_def
          updateTrackUploadStatus_def u3_def)
  have run2: "fst (putExistingMultipartFile cfg0 W0
                [(key0, \<lparr>urls = u3, status = uploaded, partUploadStatus = Some [True, True, True],
                        partETags = Some [(0, ''e''), (1, ''e''), (2, ''e'')],
                        partSize = Some 10000000\<rparr>)] key0 25000000)
     = [UpdateLastAttempted ''local'' ''hash'' 7,
        Post ''c'' ''<x/>'' PostOK,
        UpdateTrackUploadStatus ''k'' completed]"
    by (simp add: putExistingMultipartFile_def getCachedLinks_def key0_def
        W0_def u3_def completeMultipartUpload_def completion_body_def completion_parts_def)
  have ops: "run_op cfg0 [(key0, row_none_done)] key0 (Fresh W_post_fails 25000000)
               = fst (putMultipartFile cfg0 W_post_fails u3 25000000)"
    by (simp add: h u)
  have fwp: "fresh_while_pending cfg0 [Fresh W_post_fails 25000000, Resume W0 25000000]
               [(key0, row_none_done)] key0"
    by (simp add: h u del: run_op.simps)
  have states: "map status (row_states row_none_done
          (run_ops cfg0 [Fresh W_post_fails 25000000, Resume W0 25000000]
             [(key0, row_none_done)] key0))
       = [pending, pending, pending, pending, pending, pending, pending, uploaded, uploaded,
          uploaded, uploaded, completed]"
    apply (simp only: run_ops.simps ops run1 db1)
    apply (simp only: run_op.simps run2)
    apply (simp add: row_none_done_def u3_def)
    done
  show ?thesis
    using h fwp states status_never_regresses [OF h fwp]
    by blast
qed

text \<open>
  Claim C9 as stated fails: \<open>_uploadParts\<close> writes \<open>uploaded\<close> without reading the
  status, so a fresh upload with the targets of a session that is stored as
  \<open>completed\<close> takes the status back to \<open>uploaded\<close> before it completes again.
\<close>

theorem fresh_upload_regresses_counterexample:
  "getCachedLinks [(key0, row_completed)] key0 = Some row_completed
   \<and> status row_completed = completed
   \<and> urls row_completed = u3
   \<and> map status (row_states row_completed (fst (putMultipartFile cfg0 W0 u3 25000000)))
       = [completed, completed, completed, completed, completed, completed, completed,
          uploaded, uploaded, completed]"
proof -
  have run1: "fst (putMultipartFile cfg0 W0 u3 25000000)
     = [Put 0 \<lparr>partURL = ''p0'', range_start = 0, range_end = Some 10000000,
               contentLength = 10000000\<rparr> (PutResponse (Some ''e'')),
        UpdatePartStatus ''k'' 0 ''e'',
        Put 1 \<lparr>partURL = ''p1'', range_start = 10000000, range_end = Some 20000000,
               contentLength = 10000000\<rparr> (PutResponse (Some ''e'')),
        UpdatePartStatus ''k'' 1 ''e'',
        Put 2 \<lparr>partURL = ''p2'', range_start = 20000000, range_end = None,
               contentLength = 5000000\<rparr> (PutResponse (Some ''e'')),
        UpdatePartStatus ''k'' 2 ''e'',
        UpdateTrackUploadStatus ''k'' uploaded,
        Post ''c'' ''<x/>'' PostOK,
        UpdateTrackUploadStatus ''k'' completed]"
    by (simp add: putMultipartFile_def cfg0_def multipartPartSizeForUpload_def
        uploadParts_def upload_loop.simps skip_uploaded.simps W0_def
        u3_def part_request_def completeMultipartUpload_def
        completion_body_def completion_parts_def)
  show ?thesis
    unfolding run1
    by (simp add: getCachedLinks_def row_completed_def row_all_done_def u3_def)
qed

subsection \<open>A response without an identifier\<close>


lemma loop_first_put:
  "i < length (partsURLs u) \<and> \<not> (Suc i = length (partsURLs u) \<and> p = 0)
     \<longrightarrow> (\<exists>rest. uploaded_parts (fst (upload_loop W u fl p i m)) = i # rest)"
  by (rule upload_loop_result_induct
        [where P = "\<lambda>i m res. i < length (partsURLs u) \<and> \<not> (Suc i = length (partsURLs u) \<and> p = 0)
     \<longrightarrow> (\<exists>rest. uploaded_parts (fst res) = i # rest)"])
     auto













subsection \<open>The completion document\<close>

lemma map_put_new: "k \<notin> fst ` set m \<Longrightarrow> map_put m k v = m @ [(k, v)]"
  by (induction m k v rule: map_put.induct) auto

lemma loop_etags_success:
  assumes "answers_all W" and "p \<noteq> 0"
  shows "map fst m = [0..<i] \<and> i \<le> length (partsURLs u)
           \<longrightarrow> snd (upload_loop W u fl p i m)
                 = Inr (m @ map (\<lambda>j. (j, returned_etag W u fl p j)) [i..<length (partsURLs u)])"
proof (rule upload_loop_result_induct
        [where P = "\<lambda>i m res. map fst m = [0..<i] \<and> i \<le> length (partsURLs u)
           \<longrightarrow> snd res
                 = Inr (m @ map (\<lambda>j. (j, returned_etag W u fl p j)) [i..<length (partsURLs u)])"])
  fix i and m :: etag_map
  assume "length (partsURLs u) \<le> i"
  then show "map fst m = [0..<i] \<and> i \<le> length (partsURLs u)
           \<longrightarrow> snd ([] :: event list, Inr m :: exn + etag_map)
                 = Inr (m @ map (\<lambda>j. (j, returned_etag W u fl p j)) [i..<length (partsURLs u)])"
    by simp
next
  fix i and m :: etag_map
  assume "p = 0"
  then show "map fst m = [0..<i] \<and> i \<le> length (partsURLs u)
           \<longrightarrow> snd ([] :: event list, Inl IntegerDivisionByZero :: exn + etag_map)
                 = Inr (m @ map (\<lambda>j. (j, returned_etag W u fl p j)) [i..<length (partsURLs u)])"
    using assms(2) by simp
next
  fix i and m :: etag_map and e
  assume "s3_put W i (part_request u fl p i) = PutThrows e"
  then have False
    using answers_allD [OF assms(1), of i "part_request u fl p i"] by auto
  then show "map fst m = [0..<i] \<and> i \<le> length (partsURLs u)
           \<longrightarrow> snd ([Put i (part_request u fl p i) (PutThrows e)], Inl e :: exn + etag_map)
                 = Inr (m @ map (\<lambda>j. (j, returned_etag W u fl p j)) [i..<length (partsURLs u)])"
    by simp
next
  fix i and m :: etag_map and h
  assume "s3_put W i (part_request u fl p i) = PutResponse h" "h = None \<or> h = Some []"
  then have False
    using answers_allD [OF assms(1), of i "part_request u fl p i"] by auto
  then show "map fst m = [0..<i] \<and> i \<le> length (partsURLs u)
           \<longrightarrow> snd ([Put i (part_request u fl p i) (PutResponse h)],
                     Inl ETAG_MISSING :: exn + etag_map)
                 = Inr (m @ map (\<lambda>j. (j, returned_etag W u fl p j)) [i..<length (partsURLs u)])"
    by simp
next
  fix i and m :: etag_map and t :: string and evs :: "event list" and r :: "exn + etag_map"
  assume lt: "i < length (partsURLs u)"
    and resp: "s3_put W i (part_request u fl p i) = PutResponse (Some t)"
    and ih: "map fst (map_put m i t) = [0..<Suc i] \<and> Suc i \<le> length (partsURLs u)
           \<longrightarrow> snd (evs, r)
                 = Inr (map_put m i t
                        @ map (\<lambda>j. (j, returned_etag W u fl p j)) [Suc i..<length (partsURLs u)])"
  show "map fst m = [0..<i] \<and> i \<le> length (partsURLs u)
           \<longrightarrow> snd (Put i (part_request u fl p i) (PutResponse (Some t))
                        # UpdatePartStatus (objectKey u) i t # evs, r)
                 = Inr (m @ map (\<lambda>j. (j, returned_etag W u fl p j)) [i..<length (partsURLs u)])"
  proof (intro impI)
    assume a: "map fst m = [0..<i] \<and> i \<le> length (partsURLs u)"
    then have "fst ` set m = set [0..<i]"
      by (metis set_map)
    then have "i \<notin> fst ` set m" by simp
    then have put: "map_put m i t = m @ [(i, t)]"
      by (rule map_put_new)
    have t: "returned_etag W u fl p i = t"
      by (simp add: returned_etag_def resp)
    have "r = Inr ((m @ [(i, t)])
                   @ map (\<lambda>j. (j, returned_etag W u fl p j)) [Suc i..<length (partsURLs u)])"
      using ih a lt by (simp add: put)
    then show "snd (Put i (part_request u fl p i) (PutResponse (Some t))
                        # UpdatePartStatus (objectKey u) i t # evs, r)
                 = Inr (m @ map (\<lambda>j. (j, returned_etag W u fl p j)) [i..<length (partsURLs u)])"
      using lt t by (simp add: upt_conv_Cons)
  qed
qed

lemma uploadParts_etags_success:
  assumes "answers_all W" and "part_size_of cfg info \<noteq> 0"
    and "map fst (etags_of info) = [0..<skip_uploaded (partUploadStatus info) 0]"
    and "skip_uploaded (partUploadStatus info) 0 \<le> length (partsURLs (urls info))"
  shows "snd (uploadParts cfg W info fl)
           = Inr (etags_of info
                  @ map (\<lambda>j. (j, returned_etag W (urls info) fl (part_size_of cfg info) j))
                      [skip_uploaded (partUploadStatus info) 0..<length (partsURLs (urls info))])"
  using loop_etags_success [OF assms(1,2), of "etags_of info"
          "skip_uploaded (partUploadStatus info) 0" "urls info" fl] assms(3,4)
  by (simp add: uploadParts_snd)

lemma completion_calls_simps [simp]:
  "completion_calls [] = []"
  "completion_calls (Put i req out # evs) = completion_calls evs"
  "completion_calls (UpdatePartStatus objKey i t # evs) = completion_calls evs"
  "completion_calls (UpdateTrackUploadStatus objKey s # evs) = completion_calls evs"
  "completion_calls (UpdateLastAttempted l h c # evs) = completion_calls evs"
  "completion_calls (Post url body pout # evs) = Post url body pout # completion_calls evs"
  "completion_calls (evs @ evs') = completion_calls evs @ completion_calls evs'"
  by (simp_all add: completion_calls_def)

lemma uploadParts_no_completion_call:
  "completion_calls (fst (uploadParts cfg W info fl)) = []"
proof -
  have "\<forall>e \<in> set (fst (uploadParts cfg W info fl)). \<not> is_post e"
    using uploadParts_no_post by blast
  then show ?thesis
    by (simp add: completion_calls_def filter_empty_conv)
qed

lemma complete_call:
  "completion_calls (fst (completeMultipartUpload W objKey m url))
     = [Post url
          (removeAll ''&quot;''
             (removeAll [CHR 0x22]
                (convertJs2Xml W
                   (''CompleteMultipartUpload'',
                    map (\<lambda>e. \<lparr>partNumber = fst e + 1, eTag = snd e\<rparr>) m))))
          (s3_post W url
             (removeAll ''&quot;''
                (removeAll [CHR 0x22]
                   (convertJs2Xml W
                      (''CompleteMultipartUpload'',
                       map (\<lambda>e. \<lparr>partNumber = fst e + 1, eTag = snd e\<rparr>) m)))))]"
  by (simp add: completeMultipartUpload_fst completion_body_def completion_parts_def
        split: post_outcome.splits)


lemma uploadParts_then_complete_call:
  assumes "answers_all W" and "part_size_of cfg info \<noteq> 0"
    and "map fst (etags_of info) = [0..<skip_uploaded (partUploadStatus info) 0]"
    and "skip_uploaded (partUploadStatus info) 0 \<le> length (partsURLs (urls info))"
  shows "\<exists>parts out.
           completion_calls
             (fst (uploadParts cfg W info fl)
              @ (case snd (uploadParts cfg W info fl) of
                   Inl e \<Rightarrow> []
                 | Inr m \<Rightarrow> fst (completeMultipartUpload W objKey m url)))
             = [Post url
                  (removeAll ''&quot;''
                     (removeAll [CHR 0x22]
                        (convertJs2Xml W (''CompleteMultipartUpload'', parts)))) out]
           \<and> map partNumber parts = [1..<Suc (length (partsURLs (urls info)))]
           \<and> map eTag parts
               = map snd (etags_of info)
                 @ map (returned_etag W (urls info) fl (part_size_of cfg info))
                     [skip_uploaded (partUploadStatus info) 0..<length (partsURLs (urls info))]"
proof -
  let ?i0 = "skip_uploaded (partUploadStatus info) 0"
  let ?n = "length (partsURLs (urls info))"
  let ?M = "etags_of info
            @ map (\<lambda>j. (j, returned_etag W (urls info) fl (part_size_of cfg info) j)) [?i0..<?n]"
  let ?parts = "map (\<lambda>e. \<lparr>partNumber = fst e + 1, eTag = snd e\<rparr>) ?M"
  have res: "snd (uploadParts cfg W info fl) = Inr ?M"
    by (rule uploadParts_etags_success [OF assms])
  have calls: "completion_calls
             (fst (uploadParts cfg W info fl)
              @ (case snd (uploadParts cfg W info fl) of
                   Inl e \<Rightarrow> []
                 | Inr m \<Rightarrow> fst (completeMultipartUpload W objKey m url)))
             = completion_calls (fst (completeMultipartUpload W objKey ?M url))"
    by (simp add: res uploadParts_no_completion_call)
  have "map fst ?M = [0..<?i0] @ [?i0..<?n]"
    using assms(3) by (simp add: comp_def)
  also have "\<dots> = [0..<?n]"
    using assms(4) upt_add_eq_append [of 0 ?i0 "?n - ?i0"] by simp
  finally have keys: "map fst ?M = [0..<?n]" .
  have "map partNumber ?parts = map Suc (map fst ?M)"
    by (simp add: comp_def)
  then have nums: "map partNumber ?parts = [1..<Suc ?n]"
    unfolding keys by (simp add: map_Suc_upt)
  have tags: "map eTag ?parts
               = map snd (etags_of info)
                 @ map (returned_etag W (urls info) fl (part_size_of cfg info)) [?i0..<?n]"
    by (simp add: comp_def)
  show ?thesis
    unfolding calls complete_call using nums tags by blast
qed

text \<open>
  Claim C5, as amended. For every map of identifiers handed to the completion step, the
  body of the finalize call is the output of the serializer, with the double quotes
  removed, for the root \<open>CompleteMultipartUpload\<close> holding one entry per uploaded part,
  that is per key of the map, each with the index plus one as its part number and with
  its identifier, in the iteration order of the map; the number of entries is the number
  of uploaded parts. The code does not sort: the entries are strictly ascending by part
  number exactly when the map iterates in strictly ascending order of the part index.
  They are, with the part numbers \<open>1, ..., n\<close> and the identifiers the store returned,
  in the finalize call of a fresh upload, and of a resume whose stored identifiers are
  those of the skipped parts in ascending order, when the store answers every upload with
  a non-empty identifier and the part size is not zero.
\<close>

theorem completion_parts_order:
  "(\<exists>parts out.
      completion_calls (fst (completeMultipartUpload W objKey m url))
        = [Post url
             (removeAll ''&quot;''
                (removeAll [CHR 0x22]
                   (convertJs2Xml W (''CompleteMultipartUpload'', parts)))) out]
      \<and> map partNumber parts = map (\<lambda>e. fst e + 1) m
      \<and> map eTag parts = map snd m
      \<and> length parts = length m
      \<and> (sorted_wrt (<) (map partNumber parts) \<longleftrightarrow> sorted_wrt (<) (map fst m))
      \<and> (distinct (map fst m) \<longrightarrow>
            distinct (map partNumber parts) \<and> length parts = card (fst ` set m)))
   \<and> (answers_all W \<and> multipartPartSizeForUpload cfg \<noteq> 0 \<longrightarrow>
        (\<exists>parts out.
           completion_calls (fst (putMultipartFile cfg W u fl))
             = [Post (completeURL u)
                  (removeAll ''&quot;''
                     (removeAll [CHR 0x22]
                        (convertJs2Xml W (''CompleteMultipartUpload'', parts)))) out]
           \<and> map partNumber parts = [1..<Suc (length (partsURLs u))]
           \<and> map eTag parts
               = map (returned_etag W u fl (multipartPartSizeForUpload cfg))
                   [0..<length (partsURLs u)]))
   \<and> (getCachedLinks d k = Some row \<and> status row = pending
        \<and> answers_all W \<and> part_size_of cfg row \<noteq> 0
        \<and> map fst (etags_of row) = [0..<skip_uploaded (partUploadStatus row) 0]
        \<and> skip_uploaded (partUploadStatus row) 0 \<le> length (partsURLs (urls row)) \<longrightarrow>
        (\<exists>parts out.
           completion_calls (fst (putExistingMultipartFile cfg W d k fl))
             = [Post (completeURL (urls row))
                  (removeAll ''&quot;''
                     (removeAll [CHR 0x22]
                        (convertJs2Xml W (''CompleteMultipartUpload'', parts)))) out]
           \<and> map partNumber parts = [1..<Suc (length (partsURLs (urls row)))]
           \<and> map eTag parts
               = map snd (etags_of row)
                 @ map (returned_etag W (urls row) fl (part_size_of cfg row))
                     [skip_uploaded (partUploadStatus row) 0..<length (partsURLs (urls row))]))"
proof (intro conjI impI)
  let ?parts = "map (\<lambda>e. \<lparr>partNumber = fst e + 1, eTag = snd e\<rparr>) m"
  have n: "map partNumber ?parts = map (\<lambda>e. fst e + 1) m"
    and t: "map eTag ?parts = map snd m" and l: "length ?parts = length m"
    by (simp_all add: comp_def)
  have s: "sorted_wrt (<) (map partNumber ?parts) \<longleftrightarrow> sorted_wrt (<) (map fst m)"
    unfolding n by (simp add: sorted_wrt_map)
  have c: "distinct (map partNumber ?parts) \<and> length ?parts = card (fst ` set m)"
    if dist: "distinct (map fst m)"
  proof -
    have "map partNumber ?parts = map Suc (map fst m)"
      by (simp add: comp_def)
    then have "distinct (map partNumber ?parts)"
      using dist by (simp only: distinct_map) (auto simp: inj_on_def)
    moreover have "card (fst ` set m) = length m"
      using distinct_card [OF dist] by simp
    ultimately show ?thesis by simp
  qed
  show "\<exists>parts out.
      completion_calls (fst (completeMultipartUpload W objKey m url))
        = [Post url
             (removeAll ''&quot;''
                (removeAll [CHR 0x22]
                   (convertJs2Xml W (''CompleteMultipartUpload'', parts)))) out]
      \<and> map partNumber parts = map (\<lambda>e. fst e + 1) m
      \<and> map eTag parts = map snd m
      \<and> length parts = length m
      \<and> (sorted_wrt (<) (map partNumber parts) \<longleftrightarrow> sorted_wrt (<) (map fst m))
      \<and> (distinct (map fst m) \<longrightarrow>
            distinct (map partNumber parts) \<and> length parts = card (fst ` set m))"
    unfolding complete_call using n t l s c by blast
next
  assume a: "answers_all W \<and> multipartPartSizeForUpload cfg \<noteq> 0"
  let ?info = "\<lparr>urls = u, status = pending, partUploadStatus = None, partETags = None,
                partSize = None\<rparr>"
  have i: "etags_of ?info = []" "skip_uploaded (partUploadStatus ?info) 0 = 0"
    "part_size_of cfg ?info = multipartPartSizeForUpload cfg" "urls ?info = u"
    by (simp_all add: etags_of_def skip_uploaded_None part_size_of_def)
  show "\<exists>parts out.
           completion_calls (fst (putMultipartFile cfg W u fl))
             = [Post (completeURL u)
                  (removeAll ''&quot;''
                     (removeAll [CHR 0x22]
                        (convertJs2Xml W (''CompleteMultipartUpload'', parts)))) out]
           \<and> map partNumber parts = [1..<Suc (length (partsURLs u))]
           \<and> map eTag parts
               = map (returned_etag W u fl (multipartPartSizeForUpload cfg))
                   [0..<length (partsURLs u)]"
    using uploadParts_then_complete_call [of W cfg ?info fl "objectKey u" "completeURL u"] a
    unfolding putMultipartFile_fst i by simp
next
  assume a: "getCachedLinks d k = Some row \<and> status row = pending
        \<and> answers_all W \<and> part_size_of cfg row \<noteq> 0
        \<and> map fst (etags_of row) = [0..<skip_uploaded (partUploadStatus row) 0]
        \<and> skip_uploaded (partUploadStatus row) 0 \<le> length (partsURLs (urls row))"
  then have row: "getCachedLinks d k = Some row" and p: "status row = pending" by simp_all
  show "\<exists>parts out.
           completion_calls (fst (putExistingMultipartFile cfg W d k fl))
             = [Post (completeURL (urls row))
                  (removeAll ''&quot;''
                     (removeAll [CHR 0x22]
                        (convertJs2Xml W (''CompleteMultipartUpload'', parts)))) out]
           \<and> map partNumber parts = [1..<Suc (length (partsURLs (urls row)))]
           \<and> map eTag parts
               = map snd (etags_of row)
                 @ map (returned_etag W (urls row) fl (part_size_of cfg row))
                     [skip_uploaded (partUploadStatus row) 0..<length (partsURLs (urls row))]"
    using uploadParts_then_complete_call [of W cfg row fl "objectKey (urls row)"
            "completeURL (urls row)"] a
    unfolding putExisting_pending_fst [OF row p] by simp
qed


lemma xml_two_one:
  "removeAll ''&quot;''
     (removeAll [CHR 0x22]
        (xml_doc (''CompleteMultipartUpload'',
                  [\<lparr>partNumber = 2, eTag = ''b''\<rparr>, \<lparr>partNumber = 1, eTag = ''a''\<rparr>])))
   = ''<CompleteMultipartUpload><Part><PartNumber>2</PartNumber><ETag>b</ETag></Part><Part><PartNumber>1</PartNumber><ETag>a</ETag></Part></CompleteMultipartUpload>''"
  by (simp add: xml_doc_def xml_part_def decimal.simps)

lemma xml_one_two_three:
  "removeAll ''&quot;''
     (removeAll [CHR 0x22]
        (xml_doc (''CompleteMultipartUpload'',
                  [\<lparr>partNumber = 1, eTag = ''e''\<rparr>, \<lparr>partNumber = 2, eTag = ''e''\<rparr>,
                   \<lparr>partNumber = 3, eTag = ''e''\<rparr>])))
   = ''<CompleteMultipartUpload><Part><PartNumber>1</PartNumber><ETag>e</ETag></Part><Part><PartNumber>2</PartNumber><ETag>e</ETag></Part><Part><PartNumber>3</PartNumber><ETag>e</ETag></Part></CompleteMultipartUpload>''"
  by (simp add: xml_doc_def xml_part_def decimal.simps)

theorem completion_parts_order_witness:
  "answers_all W_xml \<and> multipartPartSizeForUpload cfg0 \<noteq> 0
   \<and> completion_calls (fst (putMultipartFile cfg0 W_xml u3 25000000))
       = [Post ''c''
            ''<CompleteMultipartUpload><Part><PartNumber>1</PartNumber><ETag>e</ETag></Part><Part><PartNumber>2</PartNumber><ETag>e</ETag></Part><Part><PartNumber>3</PartNumber><ETag>e</ETag></Part></CompleteMultipartUpload>''
            PostOK]"
proof -
  have h: "answers_all W_xml \<and> multipartPartSizeForUpload cfg0 \<noteq> 0"
    by (simp add: answers_all_def W_xml_def W0_def multipartPartSizeForUpload_def cfg0_def)
  obtain parts out where
    calls: "completion_calls (fst (putMultipartFile cfg0 W_xml u3 25000000))
             = [Post (completeURL u3)
                  (removeAll ''&quot;''
                     (removeAll [CHR 0x22]
                        (convertJs2Xml W_xml (''CompleteMultipartUpload'', parts)))) out]"
    and nums: "map partNumber parts = [1..<Suc (length (partsURLs u3))]"
    and tags: "map eTag parts
               = map (returned_etag W_xml u3 25000000 (multipartPartSizeForUpload cfg0))
                   [0..<length (partsURLs u3)]"
    using completion_parts_order [of W_xml _ _ _ cfg0 u3 25000000] h by blast
  have n3: "map partNumber parts = [1, 2, 3]"
    using nums by (simp add: u3_def upt_rec)
  have t3: "map eTag parts = [''e'', ''e'', ''e'']"
    using tags by (simp add: u3_def upt_rec returned_etag_def W_xml_def W0_def)
  have parts: "parts = [\<lparr>partNumber = 1, eTag = ''e''\<rparr>, \<lparr>partNumber = 2, eTag = ''e''\<rparr>,
                        \<lparr>partNumber = 3, eTag = ''e''\<rparr>]"
    using n3 t3 by (auto simp: map_eq_Cons_conv)
  have out: "out = PostOK"
    by (cases out) (use calls in \<open>auto simp: putMultipartFile_fst completeMultipartUpload_fst
          uploadParts_no_completion_call W_xml_def W0_def split: sum.splits post_outcome.splits\<close>)
  have "completion_calls (fst (putMultipartFile cfg0 W_xml u3 25000000))
       = [Post ''c''
            ''<CompleteMultipartUpload><Part><PartNumber>1</PartNumber><ETag>e</ETag></Part><Part><PartNumber>2</PartNumber><ETag>e</ETag></Part><Part><PartNumber>3</PartNumber><ETag>e</ETag></Part></CompleteMultipartUpload>''
            PostOK]"
    unfolding calls parts out
    using xml_one_two_three by (simp add: W_xml_def u3_def)
  then show ?thesis
    using h by simp
qed

text \<open>
  Claim C5 as stated fails: for a map that iterates as index 1, index 0 the body of the
  finalize call lists part 2 before part 1.
\<close>

theorem completion_unsorted_counterexample:
  "completion_calls (fst (completeMultipartUpload W_xml ''k'' [(1, ''b''), (0, ''a'')] ''c''))
     = [Post ''c''
          ''<CompleteMultipartUpload><Part><PartNumber>2</PartNumber><ETag>b</ETag></Part><Part><PartNumber>1</PartNumber><ETag>a</ETag></Part></CompleteMultipartUpload>''
          PostOK]
   \<and> map partNumber (completion_parts [(1, ''b''), (0, ''a'')]) = [2, 1]
   \<and> \<not> sorted_wrt (<) (map partNumber (completion_parts [(1, ''b''), (0, ''a'')]))"
proof -
  have p: "completion_parts [(1, ''b''), (0, ''a'')]
             = [\<lparr>partNumber = 2, eTag = ''b''\<rparr>, \<lparr>partNumber = 1, eTag = ''a''\<rparr>]"
    by (simp add: completion_parts_def)
  have w: "convertJs2Xml W_xml = xml_doc" "s3_post W_xml = (\<lambda>url body. PostOK)"
    by (simp_all add: W_xml_def W0_def)
  have b: "completion_body W_xml [(1, ''b''), (0, ''a'')]
          = ''<CompleteMultipartUpload><Part><PartNumber>2</PartNumber><ETag>b</ETag></Part><Part><PartNumber>1</PartNumber><ETag>a</ETag></Part></CompleteMultipartUpload>''"
    unfolding completion_body_def p w by (rule xml_two_one)
  have c: "completion_calls (fst (completeMultipartUpload W_xml ''k'' [(1, ''b''), (0, ''a'')] ''c''))
     = [Post ''c''
          ''<CompleteMultipartUpload><Part><PartNumber>2</PartNumber><ETag>b</ETag></Part><Part><PartNumber>1</PartNumber><ETag>a</ETag></Part></CompleteMultipartUpload>''
          PostOK]"
    unfolding completeMultipartUpload_def b w by simp
  show ?thesis
    unfolding p using c by simp
qed

text \<open>
  Such an order is reached from a stored row: resuming the session with a gap appends the
  identifier of part 1 behind the stored one of part 2.
\<close>

lemma gap_resume_unsorted:
  "snd (uploadParts cfg0 W0 row_gap 25000000) = Inr [(0, ''a''), (2, ''e''), (1, ''e'')]
   \<and> map partNumber (completion_parts [(0, ''a''), (2, ''e''), (1, ''e'')]) = [1, 3, 2]"
  by (simp add: uploadParts_def upload_loop.simps skip_uploaded.simps row_gap_def W0_def u3_def
        completion_parts_def)

end
